theory Spec2Isabelle
  imports Complex_Main "HOL-Library.Word"
begin

section \<open>Errors, events and the coordinator object\<close>

text \<open>
  The exceptions that \<open>core.py\<close> can raise, as values. The source raises the generic
  \<open>Exception\<close> with a message for every failure of its own; \<open>ValueError\<close> is raised
  by \<open>start\<close> and by \<open>int\<close>, \<open>FileNotFoundError\<close> by \<open>open\<close>,
  \<open>RequestException\<close> by the HTTP library, \<open>AttributeError\<close> by the read of the
  attribute \<open>self.filename\<close>, which no method ever sets.
\<close>

datatype error =
    Exception string
  | ValueError string
  | FileNotFoundError string
  | RequestException string
  | AttributeError string
  | ZeroDivisionError

text \<open>\<open>str(e)\<close>, as the handlers format it into messages.\<close>

fun str_error :: "error \<Rightarrow> string" where
  "str_error (Exception m) = m"
| "str_error (ValueError m) = m"
| "str_error (FileNotFoundError f) = ''[Errno 2] No such file or directory: '' @ [CHR 0x27] @ f @ [CHR 0x27]"
| "str_error (RequestException m) = m"
| "str_error (AttributeError m) = m"
| "str_error ZeroDivisionError = ''integer division or modulo by zero''"

text \<open>
  What the coordinator sends out: a status callback with an optional detail, a progress
  callback with a percent, a line printed when no status callback is attached. Percents
  are Python floats in the source and exact rationals here.
\<close>

datatype event =
    Status string "string option"
  | Progress rat
  | Print string

text \<open>
  The fields of \<open>DownloadManager\<close> that the methods read or write. The two callbacks
  are attributes that are either \<open>None\<close> or a function: the model records whether one
  is attached, and the calls made to it are the events.
\<close>

record DownloadManager =
  url :: string
  output_path :: string
  num_threads :: int
  chunk_size :: int
  total_size :: int
  accept_ranges :: bool
  file_name :: string
  thread_status :: "bool list"
  stop_event :: bool
  pause_event :: bool
  downloaded_total :: int
  progress_callback :: bool
  status_callback :: bool

subsection \<open>String helpers\<close>

definition isspace :: "char \<Rightarrow> bool" where
  "isspace c = (c \<in> set [CHR 0x09, CHR 0x0A, CHR 0x0B, CHR 0x0C, CHR 0x0D,
                          CHR 0x1C, CHR 0x1D, CHR 0x1E, CHR 0x1F, CHR 0x20])"

definition strip :: "string \<Rightarrow> string" where
  "strip s = rev (dropWhile isspace (rev (dropWhile isspace s)))"

text \<open>\<open>s.split(sep)\<close> for a one-character separator: never the empty list.\<close>

fun split_str :: "char \<Rightarrow> string \<Rightarrow> string list" where
  "split_str sep [] = [[]]"
| "split_str sep (c # cs) =
     (if c = sep then [] # split_str sep cs
      else (case split_str sep cs of
              [] \<Rightarrow> [[c]]
            | w # ws \<Rightarrow> (c # w) # ws))"

text \<open>\<open>s.lower()\<close> on ASCII letters.\<close>

definition lower_char :: "char \<Rightarrow> char" where
  "lower_char c =
     (if 65 \<le> (of_char c :: nat) \<and> (of_char c :: nat) \<le> 90
      then char_of ((of_char c :: nat) + 32) else c)"

definition lower :: "string \<Rightarrow> string" where
  "lower s = map lower_char s"

text \<open>\<open>str(i)\<close> of a non-negative integer: its decimal digits.\<close>

definition digit_char :: "nat \<Rightarrow> char" where
  "digit_char d = ''0123456789'' ! d"

function str_nat :: "nat \<Rightarrow> string" where
  "str_nat n = (if n < 10 then [digit_char n] else str_nat (n div 10) @ [digit_char (n mod 10)])"
  by pat_completeness auto
termination
  by (relation "measure (\<lambda>n. n)") auto

declare str_nat.simps [simp del]

text \<open>
  \<open>int(s)\<close> of a header value: optional surrounding white space, an optional sign,
  decimal digits; anything else raises \<open>ValueError\<close>. (Underscores between digits,
  which Python also accepts, are not modelled.)
\<close>

definition digit_val :: "char \<Rightarrow> nat option" where
  "digit_val c =
     (if 48 \<le> (of_char c :: nat) \<and> (of_char c :: nat) \<le> 57
      then Some ((of_char c :: nat) - 48) else None)"

fun digits_val :: "nat \<Rightarrow> string \<Rightarrow> nat option" where
  "digits_val acc [] = Some acc"
| "digits_val acc (c # cs) =
     (case digit_val c of
        None \<Rightarrow> None
      | Some d \<Rightarrow> digits_val (10 * acc + d) cs)"

definition py_int :: "string \<Rightarrow> int option" where
  "py_int s =
     (case strip s of
        [] \<Rightarrow> None
      | c # cs \<Rightarrow>
          if c = CHR ''-'' then
            (if cs = [] then None else map_option (\<lambda>n. - int n) (digits_val 0 cs))
          else if c = CHR ''+'' then
            (if cs = [] then None else map_option int (digits_val 0 cs))
          else map_option int (digits_val 0 (c # cs)))"

subsection \<open>\<open>__init__\<close>\<close>

text \<open>
  \<open>int(x)\<close> of an \<open>int\<close> is \<open>x\<close>. \<open>thread_status\<close> starts empty, both events are
  clear, no callback is attached. The file name is the last component of the URL as
  given; \<open>output_path\<close> is stored.
\<close>

definition init :: "string \<Rightarrow> string \<Rightarrow> int \<Rightarrow> int \<Rightarrow> DownloadManager" where
  "init u out n c =
     \<lparr> url = strip u,
       output_path = out,
       num_threads = max 1 n,
       chunk_size = max 1024 c,
       total_size = 0,
       accept_ranges = False,
       file_name = last (split_str CHR ''/'' u),
       thread_status = [],
       stop_event = False,
       pause_event = False,
       downloaded_total = 0,
       progress_callback = False,
       status_callback = False \<rparr>"

section \<open>The range planner\<close>

text \<open>
  \<open>split_ranges\<close>: one range when the server has no range support or there is one
  worker; otherwise \<open>num_threads\<close> ranges of \<open>total_size // num_threads\<close> bytes, the last
  one ending at \<open>total_size - 1\<close>. Python's \<open>//\<close> on integers is floor division, as
  \<open>div\<close> on \<open>int\<close>; it raises for a zero divisor. \<open>range(n)\<close> is empty for \<open>n \<le> 0\<close>.
\<close>

definition split_ranges :: "DownloadManager \<Rightarrow> error + (int \<times> int) list" where
  "split_ranges self =
     (if \<not> accept_ranges self \<or> num_threads self = 1
      then Inr [(0, total_size self - 1)]
      else if num_threads self = 0 then Inl ZeroDivisionError
      else
        let chunk = total_size self div num_threads self
        in Inr (map (\<lambda>i. let start = i * chunk;
                             end = (if i < num_threads self - 1
                                    then start + chunk - 1
                                    else total_size self - 1)
                         in (start, end))
                    [0 .. num_threads self - 1]))"

text \<open>
  The bytes an inclusive range names, its length, and what it is for a plan to
  partition \<open>[0, t - 1]\<close>: it starts at 0, ends at \<open>t - 1\<close>, each range starts right after
  the one before, no two ranges share a byte and together they cover every byte.
\<close>

definition range_bytes :: "int \<times> int \<Rightarrow> int set" where
  "range_bytes r = {fst r .. snd r}"

definition range_len :: "int \<times> int \<Rightarrow> int" where
  "range_len r = snd r - fst r + 1"

fun contiguous :: "(int \<times> int) list \<Rightarrow> bool" where
  "contiguous (r1 # r2 # rs) = (fst r2 = snd r1 + 1 \<and> contiguous (r2 # rs))"
| "contiguous rs = True"

definition partitions :: "int \<Rightarrow> (int \<times> int) list \<Rightarrow> bool" where
  "partitions t rs =
     (rs \<noteq> [] \<and> fst (hd rs) = 0 \<and> snd (last rs) = t - 1
      \<and> contiguous rs
      \<and> (\<forall>i j. i < j \<and> j < length rs \<longrightarrow> range_bytes (rs ! i) \<inter> range_bytes (rs ! j) = {})
      \<and> (\<Union>r\<in>set rs. range_bytes r) = {0 .. t - 1})"

text \<open>The \<open>i\<close>-th range of the multi-range plan, in closed form.\<close>

definition seg :: "int \<Rightarrow> int \<Rightarrow> int \<Rightarrow> int \<times> int" where
  "seg t n i = (i * (t div n), if i < n - 1 then i * (t div n) + t div n - 1 else t - 1)"

section \<open>Files and the assembler\<close>

text \<open>
  The working directory is a map from file names to contents. Opening a file for
  writing creates it empty (or truncates it); opening a missing file for reading raises
  \<open>FileNotFoundError\<close>, and so does opening the empty name. No other I/O failure is
  modelled.
\<close>

type_synonym bytes = "8 word list"

type_synonym filesystem = "string \<rightharpoonup> bytes"

text \<open>The segment store of worker \<open>i\<close>: \<open>f"{self.file_name}.part{i}"\<close>.\<close>

definition part_name :: "string \<Rightarrow> nat \<Rightarrow> string" where
  "part_name name i = name @ ''.part'' @ str_nat i"

text \<open>\<open>pf.read(k)\<close>: at most \<open>k\<close> bytes, everything left for a negative \<open>k\<close>.\<close>

definition pf_read :: "int \<Rightarrow> bytes \<Rightarrow> bytes" where
  "pf_read k rest = (if k < 0 then rest else take (nat k) rest)"

text \<open>
  The inner \<open>while True\<close> loop of \<open>_combine_chunks\<close>: read a block of the segment
  store, stop at the empty block, append the block to the final file. \<open>rest\<close> is what is
  left to read, \<open>out\<close> the final file so far.
\<close>

function copy_blocks :: "int \<Rightarrow> bytes \<Rightarrow> bytes \<Rightarrow> bytes" where
  "copy_blocks k rest out =
     (if pf_read k rest = [] then out
      else copy_blocks k (drop (length (pf_read k rest)) rest) (out @ pf_read k rest))"
  by pat_completeness auto
termination
proof (relation "measure (\<lambda>(k, rest, out). length rest)")
  show "wf (measure (\<lambda>(k, rest, out). length rest))" by simp
next
  fix k :: int and rest out :: bytes
  assume "pf_read k rest \<noteq> []"
  then have "rest \<noteq> []" "0 < length (pf_read k rest)"
    by (auto simp: pf_read_def split: if_splits)
  then show "((k, drop (length (pf_read k rest)) rest, out @ pf_read k rest), (k, rest, out))
               \<in> measure (\<lambda>(k, rest, out). length rest)"
    by simp
qed

declare copy_blocks.simps [simp del]

text \<open>
  The \<open>for i in range(self.num_threads)\<close> loop of \<open>_combine_chunks\<close>, over the indices
  still to do: open the segment store (raising if it is missing), copy it to the end of
  the final file, remove it. The result is the exception raised, if any, and the files as
  they are at that moment.
\<close>

primrec combine_loop :: "DownloadManager \<Rightarrow> nat list \<Rightarrow> bytes \<Rightarrow> filesystem \<Rightarrow> error option \<times> filesystem" where
  "combine_loop self [] out fs = (None, fs)"
| "combine_loop self (i # rest) out fs =
     (case fs (part_name (file_name self) i) of
        None \<Rightarrow> (Some (FileNotFoundError (part_name (file_name self) i)), fs)
      | Some content \<Rightarrow>
          combine_loop self rest (copy_blocks (chunk_size self) content out)
            ((fs(file_name self \<mapsto> copy_blocks (chunk_size self) content out))
                (part_name (file_name self) i := None)))"

text \<open>A status: the callback if one is attached, else the line the source prints.\<close>

definition notify :: "DownloadManager \<Rightarrow> string \<Rightarrow> string option \<Rightarrow> string \<Rightarrow> event" where
  "notify self status detail line =
     (if status_callback self then Status status detail else Print line)"

text \<open>
  \<open>_combine_chunks\<close>: the final file is \<open>self.file_name\<close>. Returns the exception it
  re-raises (if any), the files and the events it emitted. (The arrow in the line it
  prints on success is written \<open>->\<close> here.)
\<close>

definition combine_chunks :: "DownloadManager \<Rightarrow> filesystem \<Rightarrow> error option \<times> filesystem \<times> event list" where
  "combine_chunks self fs =
     (if file_name self = []
      then (Some (FileNotFoundError []), fs,
            [notify self ''error'' (Some (str_error (FileNotFoundError [])))
               (''[!] Error combining chunks: '' @ str_error (FileNotFoundError []))])
      else
        (case combine_loop self (map nat [0 .. num_threads self - 1]) [] (fs(file_name self \<mapsto> [])) of
           (None, fs') \<Rightarrow>
             (None, fs',
              [notify self ''completed'' None
                 (''[+] File merge completed successfully -> '' @ file_name self)])
         | (Some e, fs') \<Rightarrow>
             (Some e, fs',
              [notify self ''error'' (Some (str_error e))
                 (''[!] Error combining chunks: '' @ str_error e)])))"

text \<open>
  What a file holds (nothing, if it is missing), and the concatenation of the segment
  stores of the given workers, in that order.
\<close>

definition stored :: "filesystem \<Rightarrow> string \<Rightarrow> bytes" where
  "stored files name = (case files name of None \<Rightarrow> [] | Some c \<Rightarrow> c)"

definition stores_concat :: "filesystem \<Rightarrow> string \<Rightarrow> nat list \<Rightarrow> bytes" where
  "stores_concat files name idx = concat (map (\<lambda>i. stored files (part_name name i)) idx)"

section \<open>The network and the metadata probe\<close>

text \<open>
  A response as the probe reads it: the status code and the headers, keyed by
  lower-case name (header lookup ignores case). \<open>response.ok\<close> is false exactly for the
  codes on which \<open>raise_for_status\<close> raises, 400 to 599.
\<close>

record response =
  status_code :: int
  headers :: "string \<rightharpoonup> string"

definition ok :: "response \<Rightarrow> bool" where
  "ok r = (\<not> (400 \<le> status_code r \<and> status_code r < 600))"

definition header :: "response \<Rightarrow> string \<Rightarrow> string option" where
  "header r name = headers r (lower name)"

text \<open>
  A segment response: the status code, the blocks that \<open>iter_content\<close> yields in order,
  and the exception it raises after the last of them, if the transfer breaks.
\<close>

record segment_response =
  seg_status :: int
  blocks :: "bytes list"
  broken :: "error option"

text \<open>
  The server and the network: what \<open>requests.head\<close> and the fallback \<open>requests.get\<close>
  return or raise, and what the range request of worker \<open>i\<close> for a range returns or
  raises.
\<close>

record network =
  head_response :: "error + response"
  get_response :: "error + response"
  segment :: "nat \<Rightarrow> int \<times> int \<Rightarrow> error + segment_response"

text \<open>
  \<open>get_file_info\<close>: every exception inside is re-raised as \<open>Exception\<close> with the prefix
  \<open>Failed to fetch file metadata\<close>. On success the size and the range-support flag are
  stored in the object (the summary dictionary it returns is not used by \<open>start\<close>).
\<close>

definition metadata_failure :: "error \<Rightarrow> error" where
  "metadata_failure e = Exception (''Failed to fetch file metadata: '' @ str_error e)"

definition probe_response :: "network \<Rightarrow> error + response" where
  "probe_response net =
     (case head_response net of
        Inl e \<Rightarrow> Inl e
      | Inr r \<Rightarrow>
          if \<not> ok r \<or> header r ''Content-Length'' = None
          then (case get_response net of
                  Inl e \<Rightarrow> Inl e
                | Inr r' \<Rightarrow>
                    if ok r' then Inr r'
                    else Inl (RequestException ''HTTP error status''))
          else Inr r)"

definition get_file_info :: "network \<Rightarrow> DownloadManager \<Rightarrow> error + DownloadManager" where
  "get_file_info net self =
     (case probe_response net of
        Inl e \<Rightarrow> Inl (metadata_failure e)
      | Inr r \<Rightarrow>
          (case header r ''Content-Length'' of
             None \<Rightarrow>
               Inl (metadata_failure
                      (Exception (''Server did not provide Content-Length for URL: '' @ url self)))
           | Some s \<Rightarrow>
               (case py_int s of
                  None \<Rightarrow>
                    Inl (metadata_failure
                           (ValueError (''invalid literal for int() with base 10: '' @ s)))
                | Some t \<Rightarrow>
                    Inr (self\<lparr>total_size := t,
                              accept_ranges :=
                                (lower (case header r ''Accept-Ranges'' of
                                          None \<Rightarrow> []
                                        | Some v \<Rightarrow> v) = ''bytes'')\<rparr>))))"

section \<open>Progress\<close>

text \<open>
  Python's \<open>round(x, 2)\<close> rounds to two decimals, halves to the even neighbour.
\<close>

definition round_half_even :: "rat \<Rightarrow> int" where
  "round_half_even x =
     (if x - of_int \<lfloor>x\<rfloor> < 1 / 2 then \<lfloor>x\<rfloor>
      else if 1 / 2 < x - of_int \<lfloor>x\<rfloor> then \<lfloor>x\<rfloor> + 1
      else if even \<lfloor>x\<rfloor> then \<lfloor>x\<rfloor> else \<lfloor>x\<rfloor> + 1)"

definition round2 :: "rat \<Rightarrow> rat" where
  "round2 x = of_int (round_half_even (x * 100)) / 100"

text \<open>
  The percent a fetcher passes to its \<open>progress_callback\<close> argument after a block
  (\<open>cb\<close> says whether that argument is a function), and the percent the monitoring loop
  passes to \<open>self.progress_callback\<close>. \<open>None\<close>: no call is made.
\<close>

definition chunk_percent :: "DownloadManager \<Rightarrow> bool \<Rightarrow> rat option" where
  "chunk_percent self cb =
     (if total_size self > 0 \<and> cb
      then Some (min (of_int (downloaded_total self) / of_int (total_size self) * 100) 100)
      else None)"

definition monitor_percent :: "DownloadManager \<Rightarrow> rat option" where
  "monitor_percent self =
     (if progress_callback self \<and> total_size self > 0
      then Some (round2 (min 100 (of_int (downloaded_total self) / of_int (total_size self) * 100)))
      else None)"

section \<open>Fetchers, the monitoring loop and a run\<close>

text \<open>
  \<open>start\<close> runs one thread per range next to its own monitoring loop, and the caller's
  \<open>pause\<close>, \<open>resume\<close> and \<open>stop\<close> set and clear the two events from a further
  thread. A run is an interleaving of steps of these threads; each step is one read or
  write of shared state, in the order of the source.

  Where a fetcher is in \<open>_download_chunk\<close>:
  \<^item> \<open>F_Request\<close>: before \<open>requests.get\<close> and \<open>open(chunk_filename, "wb")\<close>;
  \<^item> \<open>F_Next\<close>: at the head of the \<open>for block in ...\<close> loop;
  \<^item> \<open>F_CheckStop b\<close>: holding block \<open>b\<close>, before \<open>if self.stop_event.is_set()\<close>;
  \<^item> \<open>F_PauseWait b\<close>: at \<open>while self.pause_event.is_set()\<close>;
  \<^item> \<open>F_Write b\<close>: before \<open>if block: f.write(block)\<close>;
  \<^item> \<open>F_Load b\<close>, \<open>F_Store b v\<close>: the two halves of
    \<open>self.downloaded_total += len(block)\<close>, which reads the attribute, adds, and writes
    the attribute back, with no lock around the three (a run in which every \<open>F_Load\<close>
    is followed at once by its \<open>F_Store\<close> is a run with atomic updates, so the split
    only adds interleavings);
  \<^item> \<open>F_Dead\<close>: the thread has returned or raised.
\<close>

datatype fetcher_pc =
    F_Request
  | F_Next
  | F_CheckStop bytes
  | F_PauseWait bytes
  | F_Write bytes
  | F_Load bytes
  | F_Store bytes int
  | F_Dead

text \<open>
  The arguments and locals of one call of \<open>_download_chunk\<close>: \<open>callback\<close> says whether
  the \<open>progress_callback\<close> argument was given (\<open>start\<close> never gives it), \<open>stream\<close> and
  \<open>stream_error\<close> are what is left of the response body.
\<close>

record fetcher =
  thread_index :: nat
  byte_range :: "int \<times> int"
  callback :: bool
  pc :: fetcher_pc
  stream :: "bytes list"
  stream_error :: "error option"

text \<open>
  Where \<open>start\<close> is: at \<open>while any(t.is_alive() ...)\<close>, at the stop test, at the pause
  test, in the inner wait loop, at the progress report, at the joins after the loop; or
  finished: returned after \<open>stopped\<close>, returned at the end, or raised.
\<close>

datatype monitor_pc =
    M_Alive
  | M_Stop
  | M_Pause
  | M_PauseWait
  | M_Progress
  | M_Join
  | M_Stopped
  | M_Completed
  | M_Raised error

record run_state =
  self :: DownloadManager
  fs :: filesystem
  events :: "event list"
  fetchers :: "fetcher list"
  monitor :: monitor_pc

definition segment_failure :: error where
  "segment_failure = Exception ''One or more threads failed to download properly.''"

definition no_range_support :: error where
  "no_range_support = Exception ''Server does not support Range requests.''"

text \<open>
  The \<open>except Exception as e\<close> handler of \<open>start\<close>: report the error, re-raise it.
\<close>

definition start_raise :: "error \<Rightarrow> run_state \<Rightarrow> run_state" where
  "start_raise e s =
     s\<lparr>events := events s @
          [notify (self s) ''error'' (Some (str_error e)) (''[!] Download error: '' @ str_error e)],
       monitor := M_Raised e\<rparr>"

definition spawn :: "(int \<times> int) list \<Rightarrow> fetcher list" where
  "spawn ranges =
     map (\<lambda>(i, r). \<lparr>thread_index = i, byte_range = r, callback = False, pc = F_Request,
                     stream = [], stream_error = None\<rparr>)
         (zip [0 ..< length ranges] ranges)"

text \<open>
  \<open>start\<close> up to the monitoring loop: print the file name, reject an empty one (outside
  the \<open>try\<close>, so with no error status), clear the events and the counter, announce
  \<open>starting\<close>, probe, raise if the server has no range support, plan, spawn one fetcher
  per range, announce \<open>downloading\<close>.
\<close>

definition start_begin :: "network \<Rightarrow> DownloadManager \<Rightarrow> filesystem \<Rightarrow> run_state" where
  "start_begin net self0 fs0 =
     (if file_name self0 = []
      then \<lparr>self = self0, fs = fs0, events = [Print (file_name self0)], fetchers = [],
            monitor = M_Raised (ValueError (''Output filename invalid: '' @ file_name self0))\<rparr>
      else
        let self1 = self0\<lparr>stop_event := False, pause_event := False, downloaded_total := 0,
                          thread_status := replicate (nat (num_threads self0)) False\<rparr>;
            s1 = \<lparr>self = self1, fs = fs0,
                  events = Print (file_name self0) #
                    (if status_callback self1 then [Status ''starting'' None] else []),
                  fetchers = [], monitor = M_Alive\<rparr>
        in case get_file_info net self1 of
             Inl e \<Rightarrow> start_raise e s1
           | Inr self2 \<Rightarrow>
               if \<not> accept_ranges self2 then start_raise no_range_support (s1\<lparr>self := self2\<rparr>)
               else
                 (case split_ranges self2 of
                    Inl e \<Rightarrow> start_raise e (s1\<lparr>self := self2\<rparr>)
                  | Inr ranges \<Rightarrow>
                      s1\<lparr>self := self2,
                         fetchers := spawn ranges,
                         events := events s1 @
                           (if status_callback self2 then [Status ''downloading'' None] else [])\<rparr>))"

text \<open>
  A thread that raises inside the \<open>try\<close> of \<open>_download_chunk\<close> records
  \<open>thread_status[i] = False\<close> and dies; one that reaches the end records \<open>True\<close>. An
  index outside the list raises in the thread and leaves the list as it is.
\<close>

definition set_status :: "nat \<Rightarrow> bool \<Rightarrow> run_state \<Rightarrow> run_state" where
  "set_status i v s = s\<lparr>self := (self s)\<lparr>thread_status := (thread_status (self s))[i := v]\<rparr>\<rparr>"

definition set_fetcher :: "nat \<Rightarrow> fetcher \<Rightarrow> run_state \<Rightarrow> run_state" where
  "set_fetcher k f s = s\<lparr>fetchers := (fetchers s)[k := f]\<rparr>"

definition append_file :: "string \<Rightarrow> bytes \<Rightarrow> filesystem \<Rightarrow> filesystem" where
  "append_file name b files =
     files(name \<mapsto> (case files name of None \<Rightarrow> b | Some c \<Rightarrow> c @ b))"

text \<open>One step of the fetcher at position \<open>k\<close> of the thread list.\<close>

definition fetcher_step :: "network \<Rightarrow> nat \<Rightarrow> run_state \<Rightarrow> run_state" where
  "fetcher_step net k s =
     (if length (fetchers s) \<le> k then s
      else
        let f = fetchers s ! k; i = thread_index f
        in case pc f of
             F_Request \<Rightarrow>
               (case segment net i (byte_range f) of
                  Inl e \<Rightarrow> set_status i False (set_fetcher k (f\<lparr>pc := F_Dead\<rparr>) s)
                | Inr r \<Rightarrow>
                    if seg_status r \<noteq> 200 \<and> seg_status r \<noteq> 206
                    then set_status i False (set_fetcher k (f\<lparr>pc := F_Dead\<rparr>) s)
                    else set_fetcher k
                           (f\<lparr>pc := F_Next, stream := blocks r, stream_error := broken r\<rparr>)
                           (s\<lparr>fs := (fs s)(part_name (file_name (self s)) i \<mapsto> [])\<rparr>))
           | F_Next \<Rightarrow>
               (case stream f of
                  [] \<Rightarrow>
                    (case stream_error f of
                       Some e \<Rightarrow> set_status i False (set_fetcher k (f\<lparr>pc := F_Dead\<rparr>) s)
                     | None \<Rightarrow> set_status i True (set_fetcher k (f\<lparr>pc := F_Dead\<rparr>) s))
                | b # bs \<Rightarrow> set_fetcher k (f\<lparr>pc := F_CheckStop b, stream := bs\<rparr>) s)
           | F_CheckStop b \<Rightarrow>
               if stop_event (self s) then set_fetcher k (f\<lparr>pc := F_Dead\<rparr>) s
               else set_fetcher k (f\<lparr>pc := F_PauseWait b\<rparr>) s
           | F_PauseWait b \<Rightarrow>
               if pause_event (self s) then s
               else set_fetcher k (f\<lparr>pc := F_Write b\<rparr>) s
           | F_Write b \<Rightarrow>
               if b \<noteq> []
               then set_fetcher k (f\<lparr>pc := F_Load b\<rparr>)
                      (s\<lparr>fs := append_file (part_name (file_name (self s)) i) b (fs s)\<rparr>)
               else set_fetcher k (f\<lparr>pc := F_Next\<rparr>) s
           | F_Load b \<Rightarrow>
               set_fetcher k (f\<lparr>pc := F_Store b (downloaded_total (self s))\<rparr>) s
           | F_Store b v \<Rightarrow>
               (let self' = (self s)\<lparr>downloaded_total := v + int (length b)\<rparr>
                in set_fetcher k (f\<lparr>pc := F_Next\<rparr>)
                     (s\<lparr>self := self',
                        events := events s @
                          (case chunk_percent self' (callback f) of
                             None \<Rightarrow> []
                           | Some p \<Rightarrow> [Progress p])\<rparr>))
           | F_Dead \<Rightarrow> s)"

definition alive :: "fetcher \<Rightarrow> bool" where
  "alive f = (pc f \<noteq> F_Dead)"

text \<open>
  \<open>start\<close> after the monitoring loop: the joins return at once (no thread is alive),
  then every entry of \<open>thread_status\<close> must be true, then the assembler runs, then
  \<open>completed\<close> is announced; with no status callback the final \<open>print\<close> reads
  \<open>self.filename\<close>, which does not exist.
\<close>

definition start_finish :: "run_state \<Rightarrow> run_state" where
  "start_finish s =
     (if \<not> list_all (\<lambda>b. b) (thread_status (self s)) then start_raise segment_failure s
      else
        (case combine_chunks (self s) (fs s) of
           (Some e, fs', evs) \<Rightarrow> start_raise e (s\<lparr>fs := fs', events := events s @ evs\<rparr>)
         | (None, fs', evs) \<Rightarrow>
             if status_callback (self s)
             then s\<lparr>fs := fs', events := events s @ evs @ [Status ''completed'' None],
                    monitor := M_Completed\<rparr>
             else start_raise
                    (AttributeError
                       ([CHR 0x27] @ ''DownloadManager'' @ [CHR 0x27] @ '' object has no attribute ''
                          @ [CHR 0x27] @ ''filename'' @ [CHR 0x27]))
                    (s\<lparr>fs := fs', events := events s @ evs\<rparr>)))"

text \<open>One step of \<open>start\<close> in and after its monitoring loop.\<close>

definition monitor_step :: "run_state \<Rightarrow> run_state" where
  "monitor_step s =
     (case monitor s of
        M_Alive \<Rightarrow>
          if list_ex alive (fetchers s) then s\<lparr>monitor := M_Stop\<rparr>
          else s\<lparr>monitor := M_Join\<rparr>
      | M_Stop \<Rightarrow>
          if stop_event (self s)
          then s\<lparr>events := events s @
                    (if status_callback (self s) then [Status ''stopped'' None] else []),
                 monitor := M_Stopped\<rparr>
          else s\<lparr>monitor := M_Pause\<rparr>
      | M_Pause \<Rightarrow>
          if pause_event (self s)
          then s\<lparr>events := events s @
                    (if status_callback (self s) then [Status ''paused'' None] else []),
                 monitor := M_PauseWait\<rparr>
          else s\<lparr>monitor := M_Progress\<rparr>
      | M_PauseWait \<Rightarrow>
          if pause_event (self s) \<and> \<not> stop_event (self s) then s
          else s\<lparr>events := events s @
                    (if status_callback (self s) then [Status ''resumed'' None] else []),
                 monitor := M_Progress\<rparr>
      | M_Progress \<Rightarrow>
          s\<lparr>events := events s @
               (case monitor_percent (self s) of None \<Rightarrow> [] | Some p \<Rightarrow> [Progress p]),
            monitor := M_Alive\<rparr>
      | M_Join \<Rightarrow> if list_ex alive (fetchers s) then s else start_finish s
      | M_Stopped \<Rightarrow> s
      | M_Completed \<Rightarrow> s
      | M_Raised e \<Rightarrow> s)"

text \<open>
  The steps of a run: fetcher \<open>k\<close> moves, \<open>start\<close> moves, or the caller sets the stop
  event, sets the pause event or clears the pause event.
\<close>

datatype action = Fetcher nat | Monitor | Stop | Pause | Resume

fun step :: "network \<Rightarrow> run_state \<Rightarrow> action \<Rightarrow> run_state" where
  "step net s (Fetcher k) = fetcher_step net k s"
| "step net s Monitor = monitor_step s"
| "step net s Stop = s\<lparr>self := (self s)\<lparr>stop_event := True\<rparr>\<rparr>"
| "step net s Pause = s\<lparr>self := (self s)\<lparr>pause_event := True\<rparr>\<rparr>"
| "step net s Resume = s\<lparr>self := (self s)\<lparr>pause_event := False\<rparr>\<rparr>"

definition exec :: "network \<Rightarrow> run_state \<Rightarrow> action list \<Rightarrow> run_state" where
  "exec net s acts = foldl (step net) s acts"

text \<open>
  \<open>start\<close> has not reached the assembler and has not raised: it is in its monitoring
  loop, at the joins, or has returned after \<open>stopped\<close>.
\<close>

definition before_assembly :: "monitor_pc \<Rightarrow> bool" where
  "before_assembly p = (p \<in> set [M_Alive, M_Stop, M_Pause, M_PauseWait, M_Progress, M_Join, M_Stopped])"

section \<open>Example inputs\<close>

text \<open>
  A coordinator for a 10,000-byte resource with range support and four workers, as after
  a successful probe, and the same with a resource of size 0.
\<close>

definition example_manager :: DownloadManager where
  "example_manager =
     (init ''http://example.com/files/a.bin'' ''a.bin'' 4 8192)
       \<lparr>total_size := 10000, accept_ranges := True\<rparr>"

definition empty_resource_manager :: DownloadManager where
  "empty_resource_manager =
     (init ''http://example.com/files/a.bin'' ''a.bin'' 4 8192)
       \<lparr>total_size := 0, accept_ranges := True\<rparr>"

text \<open>
  A coordinator with two workers, and a directory in which the segment store of worker 0
  is present and the one of worker 1 is missing.
\<close>

definition two_worker_manager :: DownloadManager where
  "two_worker_manager =
     (init ''http://example.com/files/a.bin'' ''/tmp/out.bin'' 2 8192)
       \<lparr>total_size := 5, accept_ranges := True\<rparr>"

definition one_store_missing :: filesystem where
  "one_store_missing = [''a.bin.part0'' \<mapsto> [1, 2]]"

definition both_stores_present :: filesystem where
  "both_stores_present = [''a.bin.part0'' \<mapsto> [1, 2], ''a.bin.part1'' \<mapsto> [3, 4, 5]]"

text \<open>
  A server that answers the header-only probe with a size of 5 bytes and no
  \<open>Accept-Ranges\<close> header, and servers that advertise byte ranges: one serves bytes
  \<open>1, 2\<close> to worker 0 and breaks the connection of worker 1 before any response, the
  other serves both workers.
\<close>

definition no_ranges_net :: network where
  "no_ranges_net =
     \<lparr>head_response = Inr \<lparr>status_code = 200, headers = [''content-length'' \<mapsto> ''5'']\<rparr>,
      get_response = Inl (RequestException ''unused''),
      segment = (\<lambda>i r. Inl (RequestException ''unused''))\<rparr>"

definition ranges_headers :: "string \<rightharpoonup> string" where
  "ranges_headers = [''content-length'' \<mapsto> ''5'', ''accept-ranges'' \<mapsto> ''bytes'']"

definition one_fails_net :: network where
  "one_fails_net =
     \<lparr>head_response = Inr \<lparr>status_code = 200, headers = ranges_headers\<rparr>,
      get_response = Inl (RequestException ''unused''),
      segment = (\<lambda>i r. if i = 0
                         then Inr \<lparr>seg_status = 206, blocks = [[1, 2]], broken = None\<rparr>
                         else Inl (RequestException ''connection reset''))\<rparr>"

definition both_serve_net :: network where
  "both_serve_net =
     \<lparr>head_response = Inr \<lparr>status_code = 200, headers = ranges_headers\<rparr>,
      get_response = Inl (RequestException ''unused''),
      segment = (\<lambda>i r. if i = 0
                         then Inr \<lparr>seg_status = 206, blocks = [[1, 2]], broken = None\<rparr>
                         else Inr \<lparr>seg_status = 206, blocks = [[3, 4, 5]], broken = None\<rparr>)\<rparr>"

text \<open>A coordinator for one worker, and one for two workers with both callbacks.\<close>

definition one_worker_manager :: DownloadManager where
  "one_worker_manager = init ''http://example.com/files/a.bin'' ''a.bin'' 1 8192"

definition gui_manager :: DownloadManager where
  "gui_manager =
     (init ''http://example.com/files/a.bin'' ''a.bin'' 2 8192)
       \<lparr>progress_callback := True, status_callback := True\<rparr>"


text \<open>
  The run in which worker 0 downloads its block and worker 1 fails at once, up to the
  moment \<open>start\<close> has seen that no thread is alive; and the state after both workers
  of a two-worker run have exited, with the given results.
\<close>

definition one_fails_run :: "action list" where
  "one_fails_run =
     [Fetcher 0, Fetcher 1, Fetcher 0, Fetcher 0, Fetcher 0, Fetcher 0, Fetcher 0, Fetcher 0,
      Fetcher 0, Monitor]"

definition exited_state :: "bool list \<Rightarrow> run_state" where
  "exited_state results =
     \<lparr>self = gui_manager\<lparr>total_size := 5, accept_ranges := True, thread_status := results\<rparr>,
      fs = both_stores_present,
      events = [],
      fetchers = map (\<lambda>f. f\<lparr>pc := F_Dead\<rparr>) (spawn [(0, 1), (2, 4)]),
      monitor = M_Join\<rparr>"



text \<open>
  Runs of the two-worker download in which the caller presses stop.

  In the first, worker 0 receives its block and passes the stop test, the caller pauses,
  the worker finds the pause event set and waits, and the caller stops the download; the
  worker takes two more turns. Then the caller resumes, and the worker takes two turns.

  In the second, both workers hold a block when the caller stops; each takes its next
  turn before \<open>start\<close> looks again, and then \<open>start\<close> takes two turns.
\<close>

definition start_two_workers :: run_state where
  "start_two_workers = start_begin both_serve_net gui_manager Map.empty"

definition paused_then_stopped :: "action list" where
  "paused_then_stopped = [Fetcher 0, Fetcher 0, Fetcher 0, Pause, Fetcher 0, Stop, Fetcher 0, Fetcher 0]"

definition resumed_after_stop :: "action list" where
  "resumed_after_stop = [Resume, Fetcher 0, Fetcher 0]"

definition stopped_between_polls :: "action list" where
  "stopped_between_polls =
     [Fetcher 0, Fetcher 1, Fetcher 0, Fetcher 1, Stop, Fetcher 0, Fetcher 1, Monitor, Monitor]"

text \<open>
  Runs of the two-worker download to the end of both workers: one after the other, and
  with the two updates of the counter interleaved (both read it, then both write it).
\<close>

definition sequential_run :: "action list" where
  "sequential_run =
     [Fetcher 0, Fetcher 0, Fetcher 0, Fetcher 0, Fetcher 0, Fetcher 0, Fetcher 0, Fetcher 0,
      Fetcher 1, Fetcher 1, Fetcher 1, Fetcher 1, Fetcher 1, Fetcher 1, Fetcher 1, Fetcher 1]"

definition interleaved_run :: "action list" where
  "interleaved_run =
     [Fetcher 0, Fetcher 1, Fetcher 0, Fetcher 1, Fetcher 0, Fetcher 1, Fetcher 0, Fetcher 1,
      Fetcher 0, Fetcher 1,
      Fetcher 0, Fetcher 1, Fetcher 0, Fetcher 1,
      Fetcher 0, Fetcher 1]"

text \<open>
  The interleaved run with \<open>start\<close> reporting progress after worker 1 has written
  the counter and again after worker 0 has written its stale value.
\<close>

definition racing_progress_run :: "action list" where
  "racing_progress_run =
     [Fetcher 0, Fetcher 1, Fetcher 0, Fetcher 1, Fetcher 0, Fetcher 1, Fetcher 0, Fetcher 1,
      Fetcher 0, Fetcher 1,
      Fetcher 0, Fetcher 1, Fetcher 1,
      Monitor, Monitor, Monitor, Monitor,
      Fetcher 0,
      Monitor, Monitor, Monitor, Monitor]"

text \<open>
  A request to download \<open>a.bin\<close> to \<open>/tmp/out.bin\<close>, and its run to the end of
  \<open>start\<close>; and the request the window makes for a URL that ends in a slash, for which
  it passes the destination \<open>download.bin\<close>.
\<close>

definition custom_path_manager :: DownloadManager where
  "custom_path_manager =
     (init ''http://example.com/files/a.bin'' ''/tmp/out.bin'' 2 8192)\<lparr>status_callback := True\<rparr>"

definition slash_url_manager :: DownloadManager where
  "slash_url_manager = init ''http://example.com/'' ''download.bin'' 4 8192"

definition complete_run :: "action list" where
  "complete_run = sequential_run @ [Monitor, Monitor]"
section \<open>Properties of the constructor\<close>

text \<open>
  C10. The constructor never rejects a worker count or a block size: it stores
  \<open>max(1, num_threads)\<close> and \<open>max(1024, chunk_size)\<close>, so a requested worker count
  below 1 becomes 1 and a block size below 1024 becomes 1024. The constructor has no
  raising path for integer arguments, so \<open>init\<close> is a total function to the object.
\<close>

theorem init_normalizes_parameters:
  "num_threads (init u out n c) = max 1 n
   \<and> chunk_size (init u out n c) = max 1024 c
   \<and> 1 \<le> num_threads (init u out n c)
   \<and> 1024 \<le> chunk_size (init u out n c)"
  by (simp add: init_def)

section \<open>Properties of the range planner\<close>

subsection \<open>Integer division\<close>

lemma div_mul_le: fixes x c :: int assumes "0 < c" shows "x div c * c \<le> x"
proof -
  have "x div c * c + x mod c = x" by (rule div_mult_mod_eq)
  moreover have "0 \<le> x mod c" using assms by (rule pos_mod_sign)
  ultimately show ?thesis by linarith
qed
lemma lt_div_mul_add: fixes x c :: int assumes "0 < c" shows "x < x div c * c + c"
proof -
  have "x div c * c + x mod c = x" by (rule div_mult_mod_eq)
  moreover have "x mod c < c" using assms by (rule pos_mod_bound)
  ultimately show ?thesis by linarith
qed
lemma div_lt_of_lt_mul: fixes x c m :: int assumes "0 < c" "x < m * c" shows "x div c < m"
proof (rule ccontr)
  assume "\<not> x div c < m"
  then have "m \<le> x div c" by simp
  then have "m * c \<le> x div c * c" using assms(1) by (intro mult_right_mono) auto
  also have "\<dots> \<le> x" using assms(1) by (rule div_mul_le)
  finally show False using assms(2) by simp
qed

subsection \<open>The plan in closed form\<close>

lemma contiguous_nth:
  "contiguous rs = (\<forall>i. Suc i < length rs \<longrightarrow> fst (rs ! Suc i) = snd (rs ! i) + 1)"
proof (induction rs rule: contiguous.induct)
  case (1 r1 r2 rs)
  show ?case
  proof
    assume a: "contiguous (r1 # r2 # rs)"
    show "\<forall>i. Suc i < length (r1 # r2 # rs) \<longrightarrow> fst ((r1 # r2 # rs) ! Suc i) = snd ((r1 # r2 # rs) ! i) + 1"
    proof (intro allI impI)
      fix i assume "Suc i < length (r1 # r2 # rs)"
      then show "fst ((r1 # r2 # rs) ! Suc i) = snd ((r1 # r2 # rs) ! i) + 1"
        using a 1 by (cases i) auto
    qed
  next
    assume a: "\<forall>i. Suc i < length (r1 # r2 # rs) \<longrightarrow> fst ((r1 # r2 # rs) ! Suc i) = snd ((r1 # r2 # rs) ! i) + 1"
    have h0: "fst r2 = snd r1 + 1" using a [rule_format, of 0] by simp
    have "\<forall>i. Suc i < length (r2 # rs) \<longrightarrow> fst ((r2 # rs) ! Suc i) = snd ((r2 # rs) ! i) + 1"
    proof (intro allI impI)
      fix i assume "Suc i < length (r2 # rs)"
      then show "fst ((r2 # rs) ! Suc i) = snd ((r2 # rs) ! i) + 1"
        using a [rule_format, of "Suc i"] by simp
    qed
    with 1 h0 show "contiguous (r1 # r2 # rs)" by simp
  qed
qed simp_all

lemma split_ranges_multi:
  "accept_ranges dm \<Longrightarrow> num_threads dm \<noteq> 1 \<Longrightarrow> num_threads dm \<noteq> 0 \<Longrightarrow>
   split_ranges dm = Inr (map (seg (total_size dm) (num_threads dm)) [0 .. num_threads dm - 1])"
  by (simp add: split_ranges_def seg_def Let_def)

lemma upto_nth0: "k < nat n \<Longrightarrow> [0 .. n - 1] ! k = int k"
  by (simp add: nth_upto)

lemma upto_len0: "length [0 .. n - 1] = nat n"
  by simp


lemma chunk_bounds:
  fixes t n :: int
  assumes "0 < t" "1 \<le> n"
  shows "0 \<le> t div n" "n * (t div n) \<le> t"
proof -
  show "0 \<le> t div n" using assms by (simp add: pos_imp_zdiv_nonneg_iff)
  have "t div n * n \<le> t" using assms by (intro div_mul_le) simp
  then show "n * (t div n) \<le> t" by (simp add: mult.commute)
qed

lemma seg_mono:
  fixes t n :: int
  assumes "0 < t" "1 \<le> n" "0 \<le> i" "i < j" "j \<le> n - 1"
  shows "snd (seg t n i) < fst (seg t n j)"
proof -
  have c: "0 \<le> t div n" using assms chunk_bounds by simp
  have "(i + 1) * (t div n) \<le> j * (t div n)"
    using assms c by (intro mult_right_mono) auto
  then show ?thesis using assms by (simp add: seg_def algebra_simps)
qed

lemma seg_within:
  fixes t n :: int
  assumes "0 < t" "1 \<le> n" "0 \<le> i" "i \<le> n - 1"
  shows "range_bytes (seg t n i) \<subseteq> {0 .. t - 1}"
proof -
  have c: "0 \<le> t div n" and nc: "n * (t div n) \<le> t" using assms chunk_bounds by simp_all
  have lo: "0 \<le> i * (t div n)" using assms c by simp
  show ?thesis
  proof (cases "i < n - 1")
    case True
    have "(i + 1) * (t div n) \<le> n * (t div n)"
      using True c by (intro mult_right_mono) auto
    with nc have "i * (t div n) + t div n \<le> t" by (simp add: algebra_simps)
    with lo True show ?thesis by (auto simp: range_bytes_def seg_def)
  next
    case False
    with lo show ?thesis by (auto simp: range_bytes_def seg_def)
  qed
qed

lemma seg_covers:
  fixes t n :: int
  assumes "0 < t" "1 \<le> n" "0 \<le> x" "x \<le> t - 1"
  shows "\<exists>i. 0 \<le> i \<and> i \<le> n - 1 \<and> x \<in> range_bytes (seg t n i)"
proof (cases "(n - 1) * (t div n) \<le> x")
  case True
  then have "x \<in> range_bytes (seg t n (n - 1))"
    using assms by (simp add: range_bytes_def seg_def)
  with assms show ?thesis by (intro exI [of _ "n - 1"]) simp
next
  case False
  then have lt: "x < (n - 1) * (t div n)" by simp
  have c0: "0 \<le> t div n" using assms chunk_bounds by simp
  have cpos: "0 < t div n"
  proof (rule ccontr)
    assume "\<not> 0 < t div n"
    with c0 have "t div n = 0" by simp
    with lt assms show False by simp
  qed
  let ?i = "x div (t div n)"
  have i0: "0 \<le> ?i" using assms cpos by (simp add: pos_imp_zdiv_nonneg_iff)
  have ilt: "?i < n - 1" using cpos lt by (rule div_lt_of_lt_mul)
  have lo: "?i * (t div n) \<le> x" using cpos by (rule div_mul_le)
  have hi: "x < ?i * (t div n) + t div n" using cpos by (rule lt_div_mul_add)
  have "x \<in> range_bytes (seg t n ?i)"
    using ilt lo hi by (simp add: range_bytes_def seg_def)
  with i0 ilt show ?thesis by (intro exI [of _ ?i]) simp
qed

lemma plan_partitions:
  fixes t n :: int
  assumes t: "0 < t" and n: "1 \<le> n"
  shows "partitions t (map (seg t n) [0 .. n - 1])"
proof -
  let ?rs = "map (seg t n) [0 .. n - 1]"
  have len: "length ?rs = nat n" by simp
  have nth: "?rs ! k = seg t n (int k)" if "k < nat n" for k
    using that by (simp add: upto_nth0)
  have ne: "?rs \<noteq> []" using n by (simp add: upto.simps)
  have hd0: "fst (hd ?rs) = 0"
    using n nth [of 0] ne by (simp add: hd_conv_nth seg_def)
  have lst: "snd (last ?rs) = t - 1"
  proof -
    have "last ?rs = ?rs ! (nat n - 1)" using ne len by (simp add: last_conv_nth)
    also have "\<dots> = seg t n (int (nat n - 1))" using n by (intro nth) simp
    finally show ?thesis using n by (simp add: seg_def)
  qed
  have cont: "contiguous ?rs"
    unfolding contiguous_nth
  proof (intro allI impI)
    fix i assume a: "Suc i < length ?rs"
    then have "?rs ! Suc i = seg t n (int (Suc i))" "?rs ! i = seg t n (int i)"
      using nth by simp_all
    moreover have "int i < n - 1" using a by simp
    ultimately show "fst (?rs ! Suc i) = snd (?rs ! i) + 1"
      by (simp add: seg_def algebra_simps)
  qed
  have disj: "\<forall>i j. i < j \<and> j < length ?rs \<longrightarrow> range_bytes (?rs ! i) \<inter> range_bytes (?rs ! j) = {}"
  proof (intro allI impI)
    fix i j assume a: "i < j \<and> j < length ?rs"
    then have "i < nat n" "j < nat n" by simp_all
    then have e: "?rs ! i = seg t n (int i)" "?rs ! j = seg t n (int j)"
      by (simp_all only: nth)
    have "snd (seg t n (int i)) < fst (seg t n (int j))"
      using t n a by (intro seg_mono) auto
    then show "range_bytes (?rs ! i) \<inter> range_bytes (?rs ! j) = {}"
      unfolding e by (auto simp: range_bytes_def)
  qed
  have set_rs: "set ?rs = seg t n ` {0 .. n - 1}" by simp
  have un: "(\<Union>r\<in>set ?rs. range_bytes r) = {0 .. t - 1}"
  proof
    show "(\<Union>r\<in>set ?rs. range_bytes r) \<subseteq> {0 .. t - 1}"
    proof
      fix x assume "x \<in> (\<Union>r\<in>set ?rs. range_bytes r)"
      then obtain i where i: "0 \<le> i" "i \<le> n - 1" "x \<in> range_bytes (seg t n i)"
        unfolding set_rs by auto
      from seg_within [OF t n i(1) i(2)] i(3) show "x \<in> {0 .. t - 1}" by blast
    qed
    show "{0 .. t - 1} \<subseteq> (\<Union>r\<in>set ?rs. range_bytes r)"
    proof
      fix x assume "x \<in> {0 .. t - 1}"
      then obtain i where "0 \<le> i" "i \<le> n - 1" "x \<in> range_bytes (seg t n i)"
        using seg_covers [OF t n, of x] by auto
      then show "x \<in> (\<Union>r\<in>set ?rs. range_bytes r)"
        unfolding set_rs by auto
    qed
  qed
  show ?thesis
    unfolding partitions_def using ne hd0 lst cont disj un by blast
qed

lemma single_partitions: "0 < t \<Longrightarrow> partitions t [(0, t - 1)]"
  by (simp add: partitions_def range_bytes_def)

lemma plan_lengths:
  fixes t n :: int
  assumes "i < length (map (seg t n) [0 .. n - 1]) - 1"
  shows "range_len (map (seg t n) [0 .. n - 1] ! i) = t div n"
proof -
  have "i < nat n" "int i < n - 1" using assms by simp_all
  then show ?thesis by (simp add: upto_nth0 seg_def range_len_def)
qed


text \<open>
  C1. For every total size above 0 and every worker count from 1, with or without range
  support, the planner returns a plan that partitions \<open>[0, total_size - 1]\<close>: contiguous,
  non-overlapping, covering exactly these bytes. In the multi-range case there are
  \<open>num_threads\<close> ranges, every range but the last has length
  \<open>total_size div num_threads\<close> and the last range ends at \<open>total_size - 1\<close>. (When
  there are more workers than bytes, that length is 0: the ranges before the last are
  the empty range \<open>(0, -1)\<close>.)
\<close>

theorem split_ranges_partition:
  assumes "0 < total_size dm" and "1 \<le> num_threads dm"
  shows "\<exists>rs. split_ranges dm = Inr rs
           \<and> partitions (total_size dm) rs
           \<and> (accept_ranges dm \<and> num_threads dm \<noteq> 1 \<longrightarrow>
                length rs = nat (num_threads dm)
                \<and> (\<forall>i. i < length rs - 1 \<longrightarrow>
                      range_len (rs ! i) = total_size dm div num_threads dm)
                \<and> snd (last rs) = total_size dm - 1)"
proof (cases "accept_ranges dm \<and> num_threads dm \<noteq> 1")
  case True
  let ?rs = "map (seg (total_size dm) (num_threads dm)) [0 .. num_threads dm - 1]"
  have "split_ranges dm = Inr ?rs"
    using True assms by (intro split_ranges_multi) auto
  moreover have p: "partitions (total_size dm) ?rs"
    using assms by (rule plan_partitions)
  moreover have "length ?rs = nat (num_threads dm)" by simp
  moreover have "\<forall>i. i < length ?rs - 1 \<longrightarrow> range_len (?rs ! i) = total_size dm div num_threads dm"
    using plan_lengths by blast
  moreover have "snd (last ?rs) = total_size dm - 1"
    using p by (simp add: partitions_def)
  ultimately show ?thesis by blast
next
  case False
  then have "split_ranges dm = Inr [(0, total_size dm - 1)]"
    by (auto simp: split_ranges_def)
  with False single_partitions [OF assms(1)] show ?thesis by blast
qed

lemma example_plan:
  "split_ranges example_manager = Inr [(0, 2499), (2500, 4999), (5000, 7499), (7500, 9999)]"
  by (simp add: example_manager_def init_def split_ranges_def Let_def upto.simps)

theorem split_ranges_partition_witness:
  "0 < total_size example_manager \<and> 1 \<le> num_threads example_manager
   \<and> split_ranges example_manager = Inr [(0, 2499), (2500, 4999), (5000, 7499), (7500, 9999)]
   \<and> partitions 10000 [(0, 2499), (2500, 4999), (5000, 7499), (7500, 9999)]"
proof -
  have h1: "0 < total_size example_manager" by (simp add: example_manager_def init_def)
  have h2: "1 \<le> num_threads example_manager" by (simp add: example_manager_def init_def)
  have t: "total_size example_manager = 10000" by (simp add: example_manager_def init_def)
  from split_ranges_partition [OF h1 h2] example_plan t
  have "partitions 10000 [(0, 2499), (2500, 4999), (5000, 7499), (7500, 9999)]" by auto
  with h1 h2 example_plan show ?thesis by blast
qed


text \<open>
  C8 as stated fails: the planner has no check of the size and raises nothing for a
  size of 0; it returns four empty ranges.
\<close>

theorem split_ranges_zero_size_counterexample:
  "total_size empty_resource_manager = 0
   \<and> split_ranges empty_resource_manager = Inr [(0, - 1), (0, - 1), (0, - 1), (0, - 1)]"
  by (simp add: empty_resource_manager_def init_def split_ranges_def Let_def upto.simps)

text \<open>
  C8, amended. For every total size of 0 or less and every worker count from 1, the
  planner raises no error and returns a plan. With no range support or one worker the
  plan is exactly the single range \<open>(0, total_size - 1)\<close>. Otherwise it has
  \<open>num_threads\<close> ranges, range \<open>i\<close> starts at \<open>i * (total_size div num_threads)\<close>,
  every range but the last has length \<open>total_size div num_threads\<close>, and the last one
  ends at \<open>total_size - 1\<close>.
\<close>

theorem split_ranges_nonpositive_size:
  assumes "total_size dm \<le> 0" and "1 \<le> num_threads dm"
  shows "\<exists>rs. split_ranges dm = Inr rs
           \<and> (\<not> (accept_ranges dm \<and> num_threads dm \<noteq> 1) \<longrightarrow> rs = [(0, total_size dm - 1)])
           \<and> (accept_ranges dm \<and> num_threads dm \<noteq> 1 \<longrightarrow>
                length rs = nat (num_threads dm)
                \<and> (\<forall>i. i < length rs \<longrightarrow>
                      fst (rs ! i) = int i * (total_size dm div num_threads dm))
                \<and> (\<forall>i. i < length rs - 1 \<longrightarrow>
                      range_len (rs ! i) = total_size dm div num_threads dm)
                \<and> snd (last rs) = total_size dm - 1)"
proof (cases "accept_ranges dm \<and> num_threads dm \<noteq> 1")
  case True
  let ?rs = "map (seg (total_size dm) (num_threads dm)) [0 .. num_threads dm - 1]"
  have e: "split_ranges dm = Inr ?rs"
    using True assms by (intro split_ranges_multi) auto
  have ne: "?rs \<noteq> []" using assms(2) by (simp add: upto.simps)
  have len: "length ?rs = nat (num_threads dm)" by simp
  have "last ?rs = ?rs ! (nat (num_threads dm) - 1)"
    using ne by (simp add: last_conv_nth)
  also have "\<dots> = seg (total_size dm) (num_threads dm) (int (nat (num_threads dm) - 1))"
    using assms(2) by (simp add: upto_nth0)
  finally have lst: "snd (last ?rs) = total_size dm - 1"
    using assms(2) by (simp add: seg_def)
  have starts: "\<forall>i. i < length ?rs \<longrightarrow> fst (?rs ! i) = int i * (total_size dm div num_threads dm)"
  proof (intro allI impI)
    fix i assume "i < length ?rs"
    then have "i < nat (num_threads dm)" by simp
    then show "fst (?rs ! i) = int i * (total_size dm div num_threads dm)"
      by (simp add: upto_nth0 seg_def)
  qed
  have lens: "\<forall>i. i < length ?rs - 1 \<longrightarrow> range_len (?rs ! i) = total_size dm div num_threads dm"
    using plan_lengths by blast
  from e True len starts lens lst show ?thesis by blast
next
  case False
  then have "split_ranges dm = Inr [(0, total_size dm - 1)]"
    by (auto simp: split_ranges_def)
  with False show ?thesis by blast
qed

text \<open>
  The instance with four workers and size 0: four ranges, the last one ending at \<open>-1\<close>.
\<close>

theorem split_ranges_nonpositive_size_witness:
  "total_size empty_resource_manager \<le> 0 \<and> 1 \<le> num_threads empty_resource_manager
   \<and> (\<exists>rs. split_ranges empty_resource_manager = Inr rs \<and> length rs = 4
             \<and> snd (last rs) = - 1)"
proof -
  have h1: "total_size empty_resource_manager \<le> 0"
    by (simp add: empty_resource_manager_def init_def)
  have h2: "1 \<le> num_threads empty_resource_manager"
    by (simp add: empty_resource_manager_def init_def)
  have v: "accept_ranges empty_resource_manager" "num_threads empty_resource_manager = 4"
    "total_size empty_resource_manager = 0"
    by (simp_all add: empty_resource_manager_def init_def)
  from split_ranges_nonpositive_size [OF h1 h2]
  obtain rs where rs: "split_ranges empty_resource_manager = Inr rs"
    and m: "accept_ranges empty_resource_manager \<and> num_threads empty_resource_manager \<noteq> 1 \<longrightarrow>
              length rs = nat (num_threads empty_resource_manager)
              \<and> (\<forall>i. i < length rs \<longrightarrow>
                    fst (rs ! i) = int i * (total_size empty_resource_manager div num_threads empty_resource_manager))
              \<and> (\<forall>i. i < length rs - 1 \<longrightarrow>
                    range_len (rs ! i) = total_size empty_resource_manager div num_threads empty_resource_manager)
              \<and> snd (last rs) = total_size empty_resource_manager - 1"
    by blast
  from m v have "length rs = 4" "snd (last rs) = - 1" by simp_all
  with rs h1 h2 show ?thesis by blast
qed

section \<open>Properties of the assembler\<close>

subsection \<open>Names of the segment stores\<close>


lemma digit_char_code: "d < 10 \<Longrightarrow> (of_char (digit_char d) :: nat) = 48 + d"
proof -
  assume "d < 10"
  then have "d \<in> {0, 1, 2, 3, 4, 5, 6, 7, 8, 9}" by auto
  then show ?thesis by (elim insertE emptyE) (simp_all add: digit_char_def)
qed

lemma digit_char_inj: "a < 10 \<Longrightarrow> b < 10 \<Longrightarrow> digit_char a = digit_char b \<Longrightarrow> a = b"
proof -
  assume a: "a < 10" and b: "b < 10" and e: "digit_char a = digit_char b"
  have "(of_char (digit_char a) :: nat) = of_char (digit_char b)" using e by simp
  then show ?thesis using a b by (simp add: digit_char_code)
qed

lemma str_nat_small: "n < 10 \<Longrightarrow> str_nat n = [digit_char n]"
  by (subst str_nat.simps) simp

lemma str_nat_large: "\<not> n < 10 \<Longrightarrow> str_nat n = str_nat (n div 10) @ [digit_char (n mod 10)]"
  by (subst str_nat.simps) simp

lemma str_nat_nonempty: "str_nat n \<noteq> []"
  by (cases "n < 10") (simp_all add: str_nat_small str_nat_large)


lemma str_nat_inj: "str_nat a = str_nat b \<Longrightarrow> a = b"
proof (induction a arbitrary: b rule: str_nat.induct)
  case (1 n)
  show ?case
  proof (cases "n < 10")
    case True
    note n = this
    show ?thesis
    proof (cases "b < 10")
      case True
      from 1(2) have "digit_char n = digit_char b"
        by (simp add: str_nat_small [OF n] str_nat_small [OF True])
      with n True show ?thesis by (rule digit_char_inj)
    next
      case False
      from 1(2) have "str_nat (b div 10) = []"
        by (simp add: str_nat_small [OF n] str_nat_large [OF False])
      with str_nat_nonempty show ?thesis by blast
    qed
  next
    case False
    note n = this
    show ?thesis
    proof (cases "b < 10")
      case True
      from 1(2) have "str_nat (n div 10) = []"
        by (simp add: str_nat_small [OF True] str_nat_large [OF n])
      with str_nat_nonempty show ?thesis by blast
    next
      case False
      from 1(2) have e1: "str_nat (n div 10) = str_nat (b div 10)"
        and e2: "digit_char (n mod 10) = digit_char (b mod 10)"
        by (simp_all add: str_nat_large [OF n] str_nat_large [OF False])
      from 1(1) [OF n e1] have d: "n div 10 = b div 10" .
      have m: "n mod 10 = b mod 10" by (rule digit_char_inj [OF _ _ e2]) simp_all
      have "n = 10 * (n div 10) + n mod 10" by simp
      also have "\<dots> = 10 * (b div 10) + b mod 10" using d m by simp
      also have "\<dots> = b" by simp
      finally show ?thesis .
    qed
  qed
qed

lemma part_name_inj: "part_name name i = part_name name j \<Longrightarrow> i = j"
proof -
  assume "part_name name i = part_name name j"
  then have "str_nat i = str_nat j" by (simp add: part_name_def)
  then show ?thesis by (rule str_nat_inj)
qed

lemma part_name_not_name: "part_name name i \<noteq> name"
proof
  assume "part_name name i = name"
  then have "length (part_name name i) = length name" by simp
  then show False by (simp add: part_name_def)
qed

subsection \<open>The copy loop\<close>

lemma pf_read_split: "pf_read k rest @ drop (length (pf_read k rest)) rest = rest"
proof (cases "k < 0")
  case True
  then show ?thesis by (simp add: pf_read_def)
next
  case False
  show ?thesis
  proof (cases "nat k \<le> length rest")
    case True
    then have "length (take (nat k) rest) = nat k" by simp
    with False show ?thesis by (simp only: pf_read_def if_False append_take_drop_id)
  next
    case False
    then have "take (nat k) rest = rest" by simp
    with \<open>\<not> k < 0\<close> show ?thesis by (simp add: pf_read_def)
  qed
qed

lemma pf_read_empty: "k \<noteq> 0 \<Longrightarrow> pf_read k rest = [] \<Longrightarrow> rest = []"
  by (auto simp: pf_read_def split: if_splits)

lemma copy_blocks_done: "pf_read k rest = [] \<Longrightarrow> copy_blocks k rest out = out"
  by (subst copy_blocks.simps) simp

lemma copy_blocks_more:
  "pf_read k rest \<noteq> [] \<Longrightarrow>
   copy_blocks k rest out
     = copy_blocks k (drop (length (pf_read k rest)) rest) (out @ pf_read k rest)"
  by (subst copy_blocks.simps) simp

lemma copy_blocks_all: "k \<noteq> 0 \<Longrightarrow> copy_blocks k rest out = out @ rest"
proof (induction k rest out rule: copy_blocks.induct)
  case (1 k rest out)
  show ?case
  proof (cases "pf_read k rest = []")
    case True
    from 1(2) True have "rest = []" by (rule pf_read_empty)
    moreover have "copy_blocks k rest out = out" using True by (rule copy_blocks_done)
    ultimately show ?thesis by simp
  next
    case False
    have "copy_blocks k rest out
            = copy_blocks k (drop (length (pf_read k rest)) rest) (out @ pf_read k rest)"
      using False by (rule copy_blocks_more)
    also have "\<dots> = (out @ pf_read k rest) @ drop (length (pf_read k rest)) rest"
      using 1(1) [OF False 1(2)] .
    also have "\<dots> = out @ rest" by (simp only: append_assoc pf_read_split)
    finally show ?thesis .
  qed
qed



subsection \<open>The loop over the segment stores\<close>

lemma upto_as_upt: "map nat [0 .. n - 1] = [0 ..< nat n]"
proof (rule nth_equalityI)
  show "length (map nat [0 .. n - 1]) = length [0 ..< nat n]" by simp
next
  fix i assume "i < length (map nat [0 .. n - 1])"
  then have "i < nat n" by simp
  then show "map nat [0 .. n - 1] ! i = [0 ..< nat n] ! i"
    by (simp add: upto_nth0)
qed

lemma stores_concat_cong:
  "(\<And>i. i \<in> set idx \<Longrightarrow> fs1 (part_name name i) = fs2 (part_name name i)) \<Longrightarrow>
   stores_concat fs1 name idx = stores_concat fs2 name idx"
  by (induction idx) (simp_all add: stores_concat_def stored_def)

lemma combine_loop_spec:
  assumes k: "chunk_size dm \<noteq> 0"
    and d: "distinct (pre @ post)"
    and present: "\<And>i. i \<in> set pre \<Longrightarrow> files (part_name (file_name dm) i) \<noteq> None"
    and missing: "post \<noteq> [] \<Longrightarrow> files (part_name (file_name dm) (hd post)) = None"
  shows "combine_loop dm (pre @ post) out files =
           (if post = [] then None else Some (FileNotFoundError (part_name (file_name dm) (hd post))),
            \<lambda>x. if x \<in> part_name (file_name dm) ` set pre then None
                 else if x = file_name dm \<and> pre \<noteq> [] then Some (out @ stores_concat files (file_name dm) pre)
                 else files x)"
  using d present missing
proof (induction pre arbitrary: out files)
  case Nil
  show ?case
  proof (cases post)
    case Nil
    then show ?thesis by simp
  next
    case (Cons j rest)
    with Nil.prems(3) have "files (part_name (file_name dm) j) = None" by simp
    with Cons show ?thesis by simp
  qed
next
  case (Cons i pre)
  let ?name = "file_name dm"
  let ?P = "part_name ?name"
  from Cons.prems(2) [of i] obtain c where c: "files (?P i) = Some c" by auto
  let ?out = "out @ c"
  let ?fs1 = "(files(?name \<mapsto> ?out))(?P i := None)"
  have step: "combine_loop dm ((i # pre) @ post) out files = combine_loop dm (pre @ post) ?out ?fs1"
    using c k by (simp add: copy_blocks_all)
  have other: "?fs1 (?P j) = files (?P j)" if "j \<noteq> i" for j
  proof -
    have "?P j \<noteq> ?P i" using that part_name_inj by blast
    moreover have "?P j \<noteq> ?name" by (rule part_name_not_name)
    ultimately show ?thesis by simp
  qed
  have d': "distinct (pre @ post)" using Cons.prems(1) by simp
  have notin: "i \<notin> set pre" "i \<notin> set post" using Cons.prems(1) by auto
  have p': "?fs1 (?P j) \<noteq> None" if "j \<in> set pre" for j
  proof -
    have "j \<noteq> i" using that notin by blast
    then show ?thesis using other Cons.prems(2) [of j] that by simp
  qed
  have m': "?fs1 (?P (hd post)) = None" if "post \<noteq> []"
  proof -
    have "hd post \<in> set post" using that by simp
    then have "hd post \<noteq> i" using notin by blast
    then show ?thesis using other Cons.prems(3) that by simp
  qed
  have sc: "stores_concat ?fs1 ?name pre = stores_concat files ?name pre"
  proof (rule stores_concat_cong)
    fix j assume "j \<in> set pre"
    then have "j \<noteq> i" using notin by blast
    then show "?fs1 (?P j) = files (?P j)" by (rule other)
  qed
  have sc2: "stores_concat files ?name (i # pre) = c @ stores_concat files ?name pre"
    using c by (simp add: stores_concat_def stored_def)
  have Pi: "?P i \<notin> ?P ` set pre"
  proof
    assume "?P i \<in> ?P ` set pre"
    then obtain j where "j \<in> set pre" "?P i = ?P j" by auto
    then have "i \<in> set pre" using part_name_inj by blast
    with notin show False by blast
  qed
  have final:
    "(\<lambda>x. if x \<in> ?P ` set pre then None
          else if x = ?name \<and> pre \<noteq> [] then Some (?out @ stores_concat ?fs1 ?name pre)
          else ?fs1 x)
     = (\<lambda>x. if x \<in> ?P ` set (i # pre) then None
            else if x = ?name \<and> i # pre \<noteq> [] then Some (out @ stores_concat files ?name (i # pre))
            else files x)"
  proof
    fix x
    show "(if x \<in> ?P ` set pre then None
           else if x = ?name \<and> pre \<noteq> [] then Some (?out @ stores_concat ?fs1 ?name pre)
           else ?fs1 x)
        = (if x \<in> ?P ` set (i # pre) then None
           else if x = ?name \<and> i # pre \<noteq> [] then Some (out @ stores_concat files ?name (i # pre))
           else files x)"
    proof (cases "x = ?P i")
      case True
      have "x \<noteq> ?name" unfolding True by (rule part_name_not_name)
      with True Pi show ?thesis by simp
    next
      case False
      note ni = this
      show ?thesis
      proof (cases "x \<in> ?P ` set pre")
        case True
        then show ?thesis by simp
      next
        case False
        note np = this
        show ?thesis
        proof (cases "x = ?name")
          case True
          have "?name \<noteq> ?P i" using part_name_not_name [of ?name i] by simp
          then have f1: "?fs1 ?name = Some ?out" by simp
          have "stores_concat files ?name [] = []" by (simp add: stores_concat_def)
          then show ?thesis using True np ni sc sc2 f1 by (cases "pre = []") simp_all
        next
          case False
          with ni np show ?thesis by simp
        qed
      qed
    qed
  qed
  let ?E = "if post = [] then None else Some (FileNotFoundError (?P (hd post)))"
  have "combine_loop dm ((i # pre) @ post) out files = combine_loop dm (pre @ post) ?out ?fs1"
    by (rule step)
  also have "\<dots> = (?E, \<lambda>x. if x \<in> ?P ` set pre then None
          else if x = ?name \<and> pre \<noteq> [] then Some (?out @ stores_concat ?fs1 ?name pre)
          else ?fs1 x)"
    by (rule Cons.IH [where files = ?fs1 and out = ?out, OF d' p' m'])
  also have "\<dots> = (?E, \<lambda>x. if x \<in> ?P ` set (i # pre) then None
            else if x = ?name \<and> i # pre \<noteq> [] then Some (out @ stores_concat files ?name (i # pre))
            else files x)"
    by (simp only: final)
  finally show ?case .
qed


lemma two_worker_fields:
  "file_name two_worker_manager = ''a.bin''"
  "num_threads two_worker_manager = 2"
  "chunk_size two_worker_manager = 8192"
  "output_path two_worker_manager = ''/tmp/out.bin''"
  by (simp_all add: two_worker_manager_def init_def)

lemma part_names_01:
  "part_name ''a.bin'' 0 = ''a.bin.part0''"
  "part_name ''a.bin'' 1 = ''a.bin.part1''"
  "part_name ''a.bin'' (Suc 0) = ''a.bin.part1''"
  by (simp_all add: part_name_def str_nat_small digit_char_def)

lemma indices_two: "map nat [0 .. 1] = [0, Suc 0]"
  by (simp add: upto.simps)

text \<open>
  C7 as stated fails in its last part: when the store of worker 1 is missing, the
  assembler raises, and by then it has copied and removed the store of worker 0. The
  segment stores of the failed assembly are not all left on disk.
\<close>

theorem combine_chunks_partial_delete_counterexample:
  "fst (combine_chunks two_worker_manager one_store_missing)
     = Some (FileNotFoundError ''a.bin.part1'')
   \<and> one_store_missing ''a.bin.part0'' = Some [1, 2]
   \<and> fst (snd (combine_chunks two_worker_manager one_store_missing)) ''a.bin.part0'' = None"
  by (simp add: combine_chunks_def two_worker_fields indices_two part_names_01
      one_store_missing_def copy_blocks_all)

text \<open>
  C7, amended. Let the stores of workers \<open>0, ..., j - 1\<close> be present and, if
  \<open>j\<close> is below the worker count, the store of worker \<open>j\<close> be missing. Then the
  assembler succeeds exactly when \<open>j\<close> is the worker count and otherwise raises for
  store \<open>j\<close>; the stores below \<open>j\<close> are gone, and the final file holds exactly their
  contents in index order, so a store is removed only after it has been copied in full;
  every store from \<open>j\<close> on, and every other file, is as it was. So on success no
  store is left behind, and on failure the stores already copied have been removed and
  the others are left on disk.
\<close>

theorem combine_chunks_deletes_copied_stores:
  assumes name: "file_name dm \<noteq> []" and k: "chunk_size dm \<noteq> 0"
    and j: "j \<le> nat (num_threads dm)"
    and present: "\<forall>i<j. files (part_name (file_name dm) i) \<noteq> None"
    and missing: "j < nat (num_threads dm) \<longrightarrow> files (part_name (file_name dm) j) = None"
  shows "fst (combine_chunks dm files)
           = (if j = nat (num_threads dm) then None
              else Some (FileNotFoundError (part_name (file_name dm) j)))
       \<and> (\<forall>i<j. fst (snd (combine_chunks dm files)) (part_name (file_name dm) i) = None)
       \<and> (\<forall>i\<ge>j. fst (snd (combine_chunks dm files)) (part_name (file_name dm) i)
                    = files (part_name (file_name dm) i))
       \<and> fst (snd (combine_chunks dm files)) (file_name dm)
           = Some (stores_concat files (file_name dm) [0 ..< j])
       \<and> (\<forall>x. x \<noteq> file_name dm \<and> (\<forall>i. x \<noteq> part_name (file_name dm) i)
               \<longrightarrow> fst (snd (combine_chunks dm files)) x = files x)"
proof -
  let ?name = "file_name dm"
  let ?P = "part_name ?name"
  let ?n = "nat (num_threads dm)"
  let ?pre = "[0 ..< j]"
  let ?post = "[j ..< ?n]"
  let ?fs0 = "files(?name \<mapsto> [])"
  let ?E = "if ?post = [] then None else Some (FileNotFoundError (?P (hd ?post)))"
  let ?F = "\<lambda>x. if x \<in> ?P ` set ?pre then None
                else if x = ?name \<and> ?pre \<noteq> [] then Some ([] @ stores_concat ?fs0 ?name ?pre)
                else ?fs0 x"
  have idx: "map nat [0 .. num_threads dm - 1] = ?pre @ ?post"
  proof -
    from j obtain d where n: "?n = j + d" using le_Suc_ex by blast
    have "[0 ..< j + d] = [0 ..< j] @ [j ..< j + d]" by (rule upt_add_eq_append) simp
    then show ?thesis by (simp add: upto_as_upt n)
  qed
  have fs0: "?fs0 (?P i) = files (?P i)" for i
    using part_name_not_name [of ?name i] by simp
  have d: "distinct (?pre @ ?post)" using idx [symmetric] by (simp add: upto_as_upt)
  have p: "?fs0 (?P i) \<noteq> None" if "i \<in> set ?pre" for i
    using that present by (simp add: part_name_not_name)
  have m: "?fs0 (?P (hd ?post)) = None" if "?post \<noteq> []"
  proof -
    from that have "j < ?n" by simp
    then have "hd ?post = j" by (simp add: hd_upt)
    with \<open>j < ?n\<close> missing show ?thesis by (simp add: part_name_not_name)
  qed
  have loop: "combine_loop dm (?pre @ ?post) [] ?fs0 = (?E, ?F)"
    by (rule combine_loop_spec [where files = ?fs0 and out = "[]" and pre = ?pre and post = ?post,
          OF k d p m])
  have E: "?E = (if j = ?n then None else Some (FileNotFoundError (?P j)))"
    using j by (auto simp: hd_upt)
  have sc: "stores_concat ?fs0 ?name ?pre = stores_concat files ?name ?pre"
    by (rule stores_concat_cong) (rule fs0)
  have r1: "fst (combine_chunks dm files) = ?E"
    using name by (simp only: combine_chunks_def idx loop if_False split: option.split) (simp split: option.split)
  have r2: "fst (snd (combine_chunks dm files)) = ?F"
    using name by (simp only: combine_chunks_def idx loop if_False split: option.split) (simp split: option.split)
  have c1: "fst (combine_chunks dm files)
           = (if j = ?n then None else Some (FileNotFoundError (?P j)))"
    using r1 E by simp
  have c2: "\<forall>i<j. fst (snd (combine_chunks dm files)) (?P i) = None"
    unfolding r2 by simp
  have c3: "\<forall>i\<ge>j. fst (snd (combine_chunks dm files)) (?P i) = files (?P i)"
  proof (intro allI impI)
    fix i assume "j \<le> i"
    have "?P i \<notin> ?P ` set ?pre"
    proof
      assume "?P i \<in> ?P ` set ?pre"
      then obtain i' where "i' \<in> set ?pre" "?P i = ?P i'" by auto
      then have "i \<in> set ?pre" using part_name_inj by blast
      with \<open>j \<le> i\<close> show False by simp
    qed
    moreover have "?P i \<noteq> ?name" by (rule part_name_not_name)
    ultimately show "fst (snd (combine_chunks dm files)) (?P i) = files (?P i)"
      unfolding r2 by simp
  qed
  have nm: "?name \<notin> ?P ` set ?pre"
  proof
    assume "?name \<in> ?P ` set ?pre"
    then obtain i where "?name = ?P i" by auto
    then have "?P i = ?name" by (rule sym)
    with part_name_not_name show False by blast
  qed
  have c4: "fst (snd (combine_chunks dm files)) ?name = Some (stores_concat files ?name ?pre)"
  proof (cases "j = 0")
    case True
    with nm show ?thesis unfolding r2 by (simp add: stores_concat_def)
  next
    case False
    with nm sc show ?thesis unfolding r2 by simp
  qed
  have c5: "\<forall>x. x \<noteq> ?name \<and> (\<forall>i. x \<noteq> ?P i)
               \<longrightarrow> fst (snd (combine_chunks dm files)) x = files x"
    unfolding r2 by auto
  from c1 c2 c3 c4 c5 show ?thesis by blast
qed

text \<open>
  The instance with two workers and the second store missing: the assembler raises for
  \<open>a.bin.part1\<close> and leaves the bytes of the first store in \<open>a.bin\<close>.
\<close>

theorem combine_chunks_deletes_copied_stores_witness:
  "file_name two_worker_manager \<noteq> [] \<and> chunk_size two_worker_manager \<noteq> 0
   \<and> (1::nat) \<le> nat (num_threads two_worker_manager)
   \<and> one_store_missing ''a.bin.part0'' \<noteq> None
   \<and> one_store_missing ''a.bin.part1'' = None
   \<and> fst (combine_chunks two_worker_manager one_store_missing)
        = Some (FileNotFoundError ''a.bin.part1'')
   \<and> fst (snd (combine_chunks two_worker_manager one_store_missing)) ''a.bin'' = Some [1, 2]"
proof -
  have h1: "file_name two_worker_manager \<noteq> []" by (simp add: two_worker_fields)
  have h2: "chunk_size two_worker_manager \<noteq> 0" by (simp add: two_worker_fields)
  have h3: "(1::nat) \<le> nat (num_threads two_worker_manager)" by (simp add: two_worker_fields)
  have h4: "\<forall>i<1. one_store_missing (part_name (file_name two_worker_manager) i) \<noteq> None"
    by (simp add: two_worker_fields part_names_01 one_store_missing_def)
  have h5: "1 < nat (num_threads two_worker_manager)
              \<longrightarrow> one_store_missing (part_name (file_name two_worker_manager) 1) = None"
    by (simp add: two_worker_fields part_names_01 one_store_missing_def)
  have s: "stores_concat one_store_missing ''a.bin'' [0 ..< 1] = [1, 2]"
    by (simp add: stores_concat_def stored_def part_names_01 one_store_missing_def)
  note t = combine_chunks_deletes_copied_stores [OF h1 h2 h3 h4 h5]
  from t have a: "fst (combine_chunks two_worker_manager one_store_missing)
      = (if 1 = nat (num_threads two_worker_manager) then None
         else Some (FileNotFoundError (part_name (file_name two_worker_manager) 1)))"
    by (rule conjunct1)
  from t have b: "fst (snd (combine_chunks two_worker_manager one_store_missing))
        (file_name two_worker_manager)
      = Some (stores_concat one_store_missing (file_name two_worker_manager) [0 ..< 1])"
    by blast
  have a': "fst (combine_chunks two_worker_manager one_store_missing)
        = Some (FileNotFoundError ''a.bin.part1'')"
    using a by (simp add: two_worker_fields part_names_01)
  have b': "fst (snd (combine_chunks two_worker_manager one_store_missing)) ''a.bin'' = Some [1, 2]"
    using b s by (simp add: two_worker_fields)
  have c: "one_store_missing ''a.bin.part0'' \<noteq> None" "one_store_missing ''a.bin.part1'' = None"
    by (simp_all add: one_store_missing_def)
  from h1 h2 h3 c a' b' show ?thesis by blast
qed


section \<open>Properties of a run\<close>

subsection \<open>What the steps leave alone\<close>


lemma get_file_info_any_object:
  assumes "get_file_info net a = Inr a'"
  shows "get_file_info net b = Inr (b\<lparr>total_size := total_size a', accept_ranges := accept_ranges a'\<rparr>)"
  using assms
  by (auto simp: get_file_info_def split: sum.splits option.splits)

lemma exec_Nil: "exec net s [] = s"
  by (simp add: exec_def)

lemma exec_Cons: "exec net s (a # acts) = exec net (step net s a) acts"
  by (simp add: exec_def)

lemma exec_append: "exec net s (xs @ ys) = exec net (exec net s xs) ys"
  by (simp add: exec_def)

lemma fetcher_step_monitor: "monitor (fetcher_step net k s) = monitor s"
  by (simp add: fetcher_step_def Let_def set_status_def set_fetcher_def
      split: fetcher_pc.splits sum.splits list.splits option.splits)

lemma fetcher_step_file_name: "file_name (self (fetcher_step net k s)) = file_name (self s)"
  by (simp add: fetcher_step_def Let_def set_status_def set_fetcher_def
      split: fetcher_pc.splits sum.splits list.splits option.splits)

lemma name_not_part_name: "name \<noteq> part_name name i"
  using part_name_not_name [of name i] by (rule not_sym)

lemma fetcher_step_fs:
  "fs (fetcher_step net k s) x = fs s x
   \<or> ((\<exists>i. x = part_name (file_name (self s)) i) \<and> fs (fetcher_step net k s) x \<noteq> None)"
  by (auto simp: fetcher_step_def Let_def set_status_def set_fetcher_def append_file_def
      split: fetcher_pc.splits sum.splits list.splits option.splits)

lemma fetcher_step_output:
  "fs (fetcher_step net k s) (file_name (self s)) = fs s (file_name (self s))"
  using fetcher_step_fs [of net k s "file_name (self s)"] name_not_part_name by blast

lemma fetcher_step_dom: "dom (fs s) \<subseteq> dom (fs (fetcher_step net k s))"
proof
  fix x assume "x \<in> dom (fs s)"
  then show "x \<in> dom (fs (fetcher_step net k s))"
    using fetcher_step_fs [of net k s x] by auto
qed

lemma start_raise_fields:
  "monitor (start_raise e s) = M_Raised e"
  "fs (start_raise e s) = fs s"
  "fetchers (start_raise e s) = fetchers s"
  "self (start_raise e s) = self s"
  by (simp_all add: start_raise_def)

lemma monitor_step_file_name: "file_name (self (monitor_step s)) = file_name (self s)"
  by (simp add: monitor_step_def start_finish_def start_raise_fields
      split: monitor_pc.splits prod.splits option.splits)

lemma monitor_step_fetchers: "fetchers (monitor_step s) = fetchers s"
  by (simp add: monitor_step_def start_finish_def start_raise_fields
      split: monitor_pc.splits prod.splits option.splits)

lemma monitor_step_before:
  assumes "before_assembly (monitor (monitor_step s))"
  shows "before_assembly (monitor s) \<and> fs (monitor_step s) = fs s"
  using assms
  by (auto simp: monitor_step_def start_finish_def start_raise_fields before_assembly_def
      split: monitor_pc.splits prod.splits option.splits if_splits)

lemma step_before:
  assumes "before_assembly (monitor (step net s a))"
  shows "before_assembly (monitor s)
       \<and> fs (step net s a) (file_name (self s)) = fs s (file_name (self s))
       \<and> dom (fs s) \<subseteq> dom (fs (step net s a))
       \<and> file_name (self (step net s a)) = file_name (self s)"
proof (cases a)
  case (Fetcher k)
  with assms show ?thesis
    using fetcher_step_output [of net k s] fetcher_step_dom [of s net k]
    by (simp add: fetcher_step_monitor fetcher_step_file_name)
next
  case Monitor
  with assms monitor_step_before [of s] show ?thesis
    by (simp add: monitor_step_file_name)
qed (use assms in simp_all)

lemma exec_before:
  "before_assembly (monitor (exec net s acts)) \<Longrightarrow>
   before_assembly (monitor s)
   \<and> fs (exec net s acts) (file_name (self s)) = fs s (file_name (self s))
   \<and> dom (fs s) \<subseteq> dom (fs (exec net s acts))
   \<and> file_name (self (exec net s acts)) = file_name (self s)"
proof (induction acts arbitrary: s)
  case Nil
  then show ?case by (simp add: exec_Nil)
next
  case (Cons a acts)
  from Cons.prems have b: "before_assembly (monitor (exec net (step net s a) acts))"
    by (simp add: exec_Cons)
  note ih = Cons.IH [OF b]
  from ih have "before_assembly (monitor (step net s a))" by blast
  note st = step_before [OF this]
  from st have n: "file_name (self (step net s a)) = file_name (self s)" by blast
  have 1: "before_assembly (monitor s)" using st by blast
  have 2: "fs (exec net s (a # acts)) (file_name (self s)) = fs s (file_name (self s))"
    using ih st by (simp add: exec_Cons n)
  have 3: "dom (fs s) \<subseteq> dom (fs (exec net s (a # acts)))"
  proof -
    have "dom (fs s) \<subseteq> dom (fs (step net s a))" using st by blast
    also have "\<dots> \<subseteq> dom (fs (exec net (step net s a) acts))" using ih by blast
    finally show ?thesis by (simp add: exec_Cons)
  qed
  have 4: "file_name (self (exec net s (a # acts))) = file_name (self s)"
    using ih by (simp add: exec_Cons n)
  from 1 2 3 4 show ?case by blast
qed



subsection \<open>After \<open>start\<close> has raised\<close>

lemma fetcher_step_dead: "\<not> list_ex alive (fetchers s) \<Longrightarrow> fetcher_step net k s = s"
proof (cases "length (fetchers s) \<le> k")
  case True
  then show ?thesis by (simp add: fetcher_step_def)
next
  case False
  assume "\<not> list_ex alive (fetchers s)"
  then have "\<forall>f \<in> set (fetchers s). pc f = F_Dead"
    by (simp add: list_ex_iff alive_def)
  moreover have "fetchers s ! k \<in> set (fetchers s)" using False by simp
  ultimately have "pc (fetchers s ! k) = F_Dead" by blast
  with False show ?thesis by (simp add: fetcher_step_def Let_def)
qed

lemma step_after_raise:
  assumes "monitor s = M_Raised e" and "\<not> list_ex alive (fetchers s)"
  shows "monitor (step net s a) = M_Raised e \<and> fs (step net s a) = fs s
       \<and> fetchers (step net s a) = fetchers s"
proof (cases a)
  case (Fetcher k)
  with assms show ?thesis by (simp add: fetcher_step_dead)
next
  case Monitor
  with assms show ?thesis by (simp add: monitor_step_def)
qed (use assms in simp_all)

lemma exec_after_raise:
  assumes "monitor s = M_Raised e" and "\<not> list_ex alive (fetchers s)"
  shows "monitor (exec net s acts) = M_Raised e \<and> fs (exec net s acts) = fs s
       \<and> fetchers (exec net s acts) = fetchers s"
  using assms
proof (induction acts arbitrary: s)
  case Nil
  then show ?case by (simp add: exec_Nil)
next
  case (Cons a acts)
  note st = step_after_raise [OF Cons.prems, of net a]
  from st have m: "monitor (step net s a) = M_Raised e"
    and f: "\<not> list_ex alive (fetchers (step net s a))"
    using Cons.prems(2) by simp_all
  from Cons.IH [OF m f] st show ?case by (simp add: exec_Cons)
qed

subsection \<open>No range support\<close>

text \<open>
  C4. Whenever the metadata probe succeeds and reports no range support, \<open>start\<close>
  raises the error \<open>Server does not support Range requests.\<close> (the source's plain
  \<open>Exception\<close> with this message is what the specification calls
  UnsupportedServerError), for every worker count. At that moment the files are as
  they were and no fetcher has been spawned, and no later step of anyone changes that.
  The probe is reached only with a non-empty file name: \<open>start\<close> rejects an empty one
  before probing.
\<close>

theorem start_fails_without_range_support:
  assumes name: "file_name dm \<noteq> []"
    and probe: "get_file_info net dm = Inr dm'"
    and no_ranges: "\<not> accept_ranges dm'"
  shows "monitor (start_begin net dm files) = M_Raised no_range_support
       \<and> fs (start_begin net dm files) = files
       \<and> fetchers (start_begin net dm files) = []
       \<and> (\<forall>acts. monitor (exec net (start_begin net dm files) acts) = M_Raised no_range_support
                 \<and> fs (exec net (start_begin net dm files) acts) = files
                 \<and> fetchers (exec net (start_begin net dm files) acts) = [])"
proof -
  let ?self1 = "dm\<lparr>stop_event := False, pause_event := False, downloaded_total := 0,
                     thread_status := replicate (nat (num_threads dm)) False\<rparr>"
  let ?self2 = "?self1\<lparr>total_size := total_size dm', accept_ranges := accept_ranges dm'\<rparr>"
  have p: "get_file_info net ?self1 = Inr ?self2"
    using probe by (rule get_file_info_any_object)
  have a: "\<not> accept_ranges ?self2" using no_ranges by simp
  let ?s = "start_begin net dm files"
  have m: "monitor ?s = M_Raised no_range_support"
    using name p a by (simp add: start_begin_def Let_def start_raise_fields)
  have f: "fs ?s = files"
    using name p a by (simp add: start_begin_def Let_def start_raise_fields)
  have t: "fetchers ?s = []"
    using name p a by (simp add: start_begin_def Let_def start_raise_fields)
  have d: "\<not> list_ex alive (fetchers ?s)" using t by simp
  have later: "\<forall>acts. monitor (exec net ?s acts) = M_Raised no_range_support
                 \<and> fs (exec net ?s acts) = files \<and> fetchers (exec net ?s acts) = []"
    using exec_after_raise [OF m d, of net] f t by simp
  from m f t later show ?thesis by blast
qed

text \<open>The instance with one worker and a server without \<open>Accept-Ranges\<close>.\<close>

lemma one_worker_fields:
  "file_name one_worker_manager = ''a.bin''" "num_threads one_worker_manager = 1"
  by (simp_all add: one_worker_manager_def init_def)

lemma no_ranges_probe:
  "get_file_info no_ranges_net one_worker_manager
     = Inr (one_worker_manager\<lparr>total_size := 5, accept_ranges := False\<rparr>)"
  by code_simp

theorem start_fails_without_range_support_witness:
  "file_name one_worker_manager \<noteq> []
   \<and> num_threads one_worker_manager = 1
   \<and> get_file_info no_ranges_net one_worker_manager
        = Inr (one_worker_manager\<lparr>total_size := 5, accept_ranges := False\<rparr>)
   \<and> monitor (start_begin no_ranges_net one_worker_manager Map.empty)
        = M_Raised (Exception ''Server does not support Range requests.'')
   \<and> fetchers (start_begin no_ranges_net one_worker_manager Map.empty) = []"
proof -
  have h1: "file_name one_worker_manager \<noteq> []" by (simp add: one_worker_fields)
  have h3: "\<not> accept_ranges (one_worker_manager\<lparr>total_size := 5, accept_ranges := False\<rparr>)"
    by simp
  note t = start_fails_without_range_support [OF h1 no_ranges_probe h3, of Map.empty]
  from t have "monitor (start_begin no_ranges_net one_worker_manager Map.empty)
        = M_Raised (Exception ''Server does not support Range requests.'')"
    by (simp add: no_range_support_def)
  moreover from t have "fetchers (start_begin no_ranges_net one_worker_manager Map.empty) = []"
    by blast
  ultimately show ?thesis using h1 no_ranges_probe one_worker_fields(2) by blast
qed

subsection \<open>A failed fetcher\<close>

text \<open>
  C2 as stated fails in one part: the error does not name the failed indices. After a
  two-worker run in which worker 0 failed and after one in which worker 1 failed,
  \<open>start\<close> raises the same exception with the same message and reports the same
  detail to the status callback.
\<close>

theorem segment_failure_same_error_counterexample:
  "thread_status (self (exited_state [False, True])) = [False, True]
   \<and> thread_status (self (exited_state [True, False])) = [True, False]
   \<and> monitor (monitor_step (exited_state [False, True]))
        = M_Raised (Exception ''One or more threads failed to download properly.'')
   \<and> monitor (monitor_step (exited_state [True, False]))
        = M_Raised (Exception ''One or more threads failed to download properly.'')
   \<and> events (monitor_step (exited_state [False, True]))
        = [Status ''error'' (Some ''One or more threads failed to download properly.'')]
   \<and> events (monitor_step (exited_state [True, False]))
        = [Status ''error'' (Some ''One or more threads failed to download properly.'')]"
  by code_simp

text \<open>
  C2, amended. Take any run, from any state, that has brought \<open>start\<close> to its joins
  with every fetcher exited and some entry of \<open>thread_status\<close> false. Then the next
  step of \<open>start\<close> raises \<open>One or more threads failed to download properly.\<close>
  without touching any file: the assembler is not run, the output file is as it was
  before the run (so it is not created), every file that existed during the run is
  still there, and nothing that happens afterwards changes the files.
\<close>

theorem segment_failure_skips_assembly:
  assumes joined: "monitor (exec net s acts) = M_Join"
    and exited: "\<not> list_ex alive (fetchers (exec net s acts))"
    and failed: "\<not> list_all (\<lambda>b. b) (thread_status (self (exec net s acts)))"
  shows "monitor (monitor_step (exec net s acts)) = M_Raised segment_failure
       \<and> fs (monitor_step (exec net s acts)) = fs (exec net s acts)
       \<and> fs (monitor_step (exec net s acts)) (file_name (self s)) = fs s (file_name (self s))
       \<and> dom (fs s) \<subseteq> dom (fs (monitor_step (exec net s acts)))
       \<and> (\<forall>more. monitor (exec net (monitor_step (exec net s acts)) more) = M_Raised segment_failure
                 \<and> fs (exec net (monitor_step (exec net s acts)) more) = fs (exec net s acts))"
proof -
  let ?t = "exec net s acts"
  have e: "monitor_step ?t = start_raise segment_failure ?t"
    using joined exited failed by (simp add: monitor_step_def start_finish_def)
  have m: "monitor (monitor_step ?t) = M_Raised segment_failure"
    and f: "fs (monitor_step ?t) = fs ?t"
    and d: "\<not> list_ex alive (fetchers (monitor_step ?t))"
    using exited by (simp_all add: e start_raise_fields)
  have "before_assembly (monitor ?t)" using joined by (simp add: before_assembly_def)
  note b = exec_before [OF this]
  have o: "fs (monitor_step ?t) (file_name (self s)) = fs s (file_name (self s))"
    using b f by simp
  have k: "dom (fs s) \<subseteq> dom (fs (monitor_step ?t))" using b f by simp
  have later: "\<forall>more. monitor (exec net (monitor_step ?t) more) = M_Raised segment_failure
                 \<and> fs (exec net (monitor_step ?t) more) = fs ?t"
    using exec_after_raise [OF m d, of net] f by simp
  from m f o k later show ?thesis by blast
qed

lemma one_fails_run_eval:
  "(let t = exec one_fails_net (start_begin one_fails_net gui_manager Map.empty) one_fails_run
    in (monitor t, list_ex alive (fetchers t), thread_status (self t), fs t ''a.bin.part0''))
   = (M_Join, False, [True, False], Some [1, 2])"
  by code_simp

text \<open>
  The instance where worker 0 succeeds and the connection of worker 1 breaks.
\<close>

theorem segment_failure_skips_assembly_witness:
  "monitor (exec one_fails_net (start_begin one_fails_net gui_manager Map.empty) one_fails_run) = M_Join
   \<and> thread_status (self (exec one_fails_net (start_begin one_fails_net gui_manager Map.empty) one_fails_run))
        = [True, False]
   \<and> monitor (monitor_step
        (exec one_fails_net (start_begin one_fails_net gui_manager Map.empty) one_fails_run))
        = M_Raised (Exception ''One or more threads failed to download properly.'')
   \<and> fs (monitor_step
        (exec one_fails_net (start_begin one_fails_net gui_manager Map.empty) one_fails_run))
        ''a.bin'' = None
   \<and> fs (monitor_step
        (exec one_fails_net (start_begin one_fails_net gui_manager Map.empty) one_fails_run))
        ''a.bin.part0'' = Some [1, 2]"
proof -
  let ?s = "start_begin one_fails_net gui_manager Map.empty"
  let ?t = "exec one_fails_net ?s one_fails_run"
  have ev: "(monitor ?t, list_ex alive (fetchers ?t), thread_status (self ?t), fs ?t ''a.bin.part0'')
              = (M_Join, False, [True, False], Some [1, 2])"
    using one_fails_run_eval by (simp only: Let_def)
  have h1: "monitor ?t = M_Join" using ev by simp
  have h2: "\<not> list_ex alive (fetchers ?t)" using ev by simp
  have st: "thread_status (self ?t) = [True, False]" using ev by simp
  have p0: "fs ?t ''a.bin.part0'' = Some [1, 2]" using ev by simp
  have h3: "\<not> list_all (\<lambda>b. b) (thread_status (self ?t))" unfolding st by simp
  have s0: "file_name (self ?s) = ''a.bin'' \<and> fs ?s ''a.bin'' = None" by code_simp
  note t = segment_failure_skips_assembly [OF h1 h2 h3]
  from t have a: "monitor (monitor_step ?t)
      = M_Raised (Exception ''One or more threads failed to download properly.'')"
    by (simp add: segment_failure_def)
  from t have "fs (monitor_step ?t) (file_name (self ?s)) = fs ?s (file_name (self ?s))"
    by blast
  with s0 have b: "fs (monitor_step ?t) ''a.bin'' = None" by simp
  from t have "fs (monitor_step ?t) = fs ?t" by blast
  with p0 have c: "fs (monitor_step ?t) ''a.bin.part0'' = Some [1, 2]" by simp
  from h1 st a b c show ?thesis by blast
qed



section \<open>Properties of the progress reports\<close>

subsection \<open>Rounding\<close>








subsection \<open>The percents delivered\<close>


















section \<open>Runs that show defects\<close>

subsection \<open>Stop while paused, and stop between two polls\<close>

text \<open>The two runs, evaluated.\<close>

lemma paused_then_stopped_eval:
  "(let s1 = exec both_serve_net start_two_workers paused_then_stopped;
        s2 = exec both_serve_net s1 resumed_after_stop
    in (stop_event (self s1), pause_event (self s1), map pc (fetchers s1),
        fs s1 ''a.bin.part0'', stop_event (self s2), fs s2 ''a.bin.part0''))
   = (True, True, [F_PauseWait [1, 2], F_Request], Some [], True, Some [1, 2])"
  by code_simp

lemma stopped_between_polls_eval:
  "(let s = exec both_serve_net start_two_workers stopped_between_polls
    in (map pc (fetchers s), monitor s, events s))
   = ([F_Dead, F_Dead],
      M_Raised (Exception ''One or more threads failed to download properly.''),
      [Print ''a.bin'', Status ''starting'' None, Status ''downloading'' None,
       Status ''error'' (Some ''One or more threads failed to download properly.'')])"
  by code_simp

text \<open>
  C3 is what the control plane is meant to do, and the code misses it in two places.

  The pause loop of a fetcher (\<open>while self.pause_event.is_set()\<close>) does not test the
  stop event, while the pause loop of \<open>start\<close> does
  (\<open>while self.pause_event.is_set() and not self.stop_event.is_set()\<close>). A fetcher
  that waits there when stop is set keeps waiting, however many turns it takes, and
  when the pause is cleared it writes the block it holds: a block written after the
  stop signal.

  \<open>start\<close> tests \<open>any(t.is_alive() ...)\<close> before it tests the stop event. When every
  fetcher sees the stop signal and returns before the next poll, the loop ends, the
  check of \<open>thread_status\<close> fails, and the run ends with the error status instead of
  \<open>stopped\<close>.
\<close>

theorem stop_not_honoured_while_paused:
  "stop_event (self (exec both_serve_net start_two_workers paused_then_stopped))
   \<and> pause_event (self (exec both_serve_net start_two_workers paused_then_stopped))
   \<and> map pc (fetchers (exec both_serve_net start_two_workers paused_then_stopped))
        = [F_PauseWait [1, 2], F_Request]
   \<and> fs (exec both_serve_net start_two_workers paused_then_stopped) ''a.bin.part0'' = Some []
   \<and> stop_event (self (exec both_serve_net
          (exec both_serve_net start_two_workers paused_then_stopped) resumed_after_stop))
   \<and> fs (exec both_serve_net
          (exec both_serve_net start_two_workers paused_then_stopped) resumed_after_stop)
        ''a.bin.part0'' = Some [1, 2]
   \<and> map pc (fetchers (exec both_serve_net start_two_workers stopped_between_polls))
        = [F_Dead, F_Dead]
   \<and> monitor (exec both_serve_net start_two_workers stopped_between_polls)
        = M_Raised (Exception ''One or more threads failed to download properly.'')
   \<and> events (exec both_serve_net start_two_workers stopped_between_polls)
        = [Print ''a.bin'', Status ''starting'' None, Status ''downloading'' None,
           Status ''error'' (Some ''One or more threads failed to download properly.'')]"
  using paused_then_stopped_eval stopped_between_polls_eval
  by (simp only: Let_def prod.inject)

subsection \<open>Two fetchers and one counter\<close>

text \<open>
  The interleaved and the sequential run, evaluated; and a run in which \<open>start\<close>
  reports progress between the two stale writes of the counter: 60 percent, then 40.
\<close>

lemma interleaved_run_eval:
  "(let s = exec both_serve_net start_two_workers interleaved_run
    in (downloaded_total (self s), fs s ''a.bin.part0'', fs s ''a.bin.part1'',
        map pc (fetchers s), thread_status (self s)))
   = (3, Some [1, 2], Some [3, 4, 5], [F_Dead, F_Dead], [True, True])"
  by code_simp

lemma sequential_run_eval:
  "downloaded_total (self (exec both_serve_net start_two_workers sequential_run)) = 5"
  by code_simp

lemma progress_decreases_after_lost_update:
  "filter (\<lambda>e. case e of Progress p \<Rightarrow> True | _ \<Rightarrow> False)
          (events (exec both_serve_net start_two_workers racing_progress_run))
   = [Progress 60, Progress 40]"
  by code_simp

text \<open>
  C9 is what the counter is meant to do, and the code has no lock or atomic update
  around \<open>self.downloaded_total += len(block)\<close>. When two fetchers each read the
  counter before either writes it back, one increment is lost: both workers finish
  successfully, 2 and 3 bytes are written to the two stores, and the counter is 3. With
  the fetchers one after the other it is 5.
\<close>

theorem counter_update_lost:
  "downloaded_total (self (exec both_serve_net start_two_workers interleaved_run)) = 3
   \<and> fs (exec both_serve_net start_two_workers interleaved_run) ''a.bin.part0'' = Some [1, 2]
   \<and> fs (exec both_serve_net start_two_workers interleaved_run) ''a.bin.part1'' = Some [3, 4, 5]
   \<and> map pc (fetchers (exec both_serve_net start_two_workers interleaved_run)) = [F_Dead, F_Dead]
   \<and> thread_status (self (exec both_serve_net start_two_workers interleaved_run)) = [True, True]
   \<and> downloaded_total (self (exec both_serve_net start_two_workers sequential_run)) = 5"
  using interleaved_run_eval sequential_run_eval
  by (simp only: Let_def prod.inject)

subsection \<open>The destination path\<close>

text \<open>The run with a destination path, and the request for a URL ending in a slash.\<close>

lemma custom_path_stores_eval:
  "(let s = exec both_serve_net (start_begin both_serve_net custom_path_manager Map.empty)
              sequential_run
    in (fs s ''a.bin.part0'', fs s ''/tmp/out.bin.part0''))
   = (Some [1, 2], None)"
  by code_simp

lemma custom_path_complete_eval:
  "(let s = exec both_serve_net (start_begin both_serve_net custom_path_manager Map.empty)
              complete_run
    in (monitor s, fs s ''a.bin'', fs s ''/tmp/out.bin''))
   = (M_Completed, Some [1, 2, 3, 4, 5], None)"
  by code_simp

lemma slash_url_eval:
  "(let s = start_begin both_serve_net slash_url_manager Map.empty
    in (monitor s, fs s ''download.bin''))
   = (M_Raised (ValueError ''Output filename invalid: ''), None)"
  by code_simp

lemma output_paths:
  "output_path custom_path_manager = ''/tmp/out.bin''"
  "output_path slash_url_manager = ''download.bin''"
  by (simp_all add: custom_path_manager_def slash_url_manager_def init_def)

text \<open>
  C6 is what the constructor's \<open>output_path\<close> parameter is for, and the code stores it
  and never reads it: the segment stores and the final file are named from the last
  component of the URL. A download of \<open>a.bin\<close> requested to \<open>/tmp/out.bin\<close> completes
  with the file \<open>a.bin\<close> and nothing at \<open>/tmp/out.bin\<close>, its stores being
  \<open>a.bin.part0\<close> and \<open>a.bin.part1\<close>. For a URL that ends in a slash the window
  passes the destination \<open>download.bin\<close>, and \<open>start\<close> raises for an empty file name.
\<close>

theorem output_path_ignored:
  "output_path custom_path_manager = ''/tmp/out.bin''
   \<and> fs (exec both_serve_net (start_begin both_serve_net custom_path_manager Map.empty)
            sequential_run) ''a.bin.part0'' = Some [1, 2]
   \<and> fs (exec both_serve_net (start_begin both_serve_net custom_path_manager Map.empty)
            sequential_run) ''/tmp/out.bin.part0'' = None
   \<and> monitor (exec both_serve_net (start_begin both_serve_net custom_path_manager Map.empty)
            complete_run) = M_Completed
   \<and> fs (exec both_serve_net (start_begin both_serve_net custom_path_manager Map.empty)
            complete_run) ''a.bin'' = Some [1, 2, 3, 4, 5]
   \<and> fs (exec both_serve_net (start_begin both_serve_net custom_path_manager Map.empty)
            complete_run) ''/tmp/out.bin'' = None
   \<and> output_path slash_url_manager = ''download.bin''
   \<and> monitor (start_begin both_serve_net slash_url_manager Map.empty)
        = M_Raised (ValueError ''Output filename invalid: '')
   \<and> fs (start_begin both_serve_net slash_url_manager Map.empty) ''download.bin'' = None"
  using custom_path_stores_eval custom_path_complete_eval slash_url_eval output_paths
  by (simp only: Let_def prod.inject)

end
